theory Spec2Isabelle
  imports Complex_Main "HOL-Library.List_Lexorder" "HOL-Library.Char_ord" "HOL-Library.Multiset"
begin

section \<open>Model registry (\<^verbatim>\<open>ml/model_registry.py\<close>)\<close>

text \<open>
  Python values are modelled as follows. Strings are \<open>string\<close>; ISO timestamps are
  strings compared lexicographically, as Python compares them. Metric scores and blend
  weights are \<open>real\<close>: exact arithmetic stands for the floats of the source (no rounding,
  no NaN). A dictionary whose keys may be missing is a record of \<open>option\<close> fields
  (\<open>None\<close>: the key is missing). An exception is the \<open>Inl\<close> of a result; since a raise
  does not undo earlier mutation, every operation returns its result together with the
  state it leaves behind. Reads of the clock and of the UUID generator are arguments.
\<close>

datatype error =
    ValueError string
  | BroadcastError nat nat
  | EmptySequenceError
  | CollaboratorError string

text \<open>A ledger entry: the dictionary built by \<open>add_model\<close>, later extended with
  \<open>updated_at\<close> and \<open>promoted_at\<close>. An entry loaded from a file may lack \<open>model_type\<close>.\<close>

record entry =
  id_key :: string
  version :: string
  algorithm :: string
  metrics :: "string \<rightharpoonup> real"
  created_at :: string
  status :: string
  file_path :: string
  model_type :: "string option"
  training_session_id :: "string option"
  description :: string
  tags :: "string list"
  updated_at :: "string option"
  promoted_at :: "string option"

text \<open>The argument of \<open>add_model\<close>. The value under \<open>id\<close> may be Python's \<open>None\<close>
  (\<open>Some None\<close>) as well as a string; the other values are stored unread.\<close>

record model_data =
  md_id :: "string option option"
  md_version :: "string option"
  md_algorithm :: "string option"
  md_metrics :: "(string \<rightharpoonup> real) option"
  md_status :: "string option"
  md_file_path :: "string option"
  md_model_type :: "string option"
  md_training_session_id :: "string option"
  md_description :: "string option"
  md_tags :: "string list option"

record registry_doc =
  reg_version :: string
  reg_created_at :: string
  reg_updated_at :: string
  models :: "entry list"

text \<open>The registry object: \<open>self.registry\<close> and the contents of the file at
  \<open>self.registry_path\<close>.\<close>

record store =
  registry :: registry_doc
  registry_file :: registry_doc

definition save_registry :: "string \<Rightarrow> store \<Rightarrow> store" where
  "save_registry now s =
     (let r = (registry s)\<lparr>reg_updated_at := now\<rparr>
      in s\<lparr>registry := r, registry_file := r\<rparr>)"

definition set_models :: "entry list \<Rightarrow> store \<Rightarrow> store" where
  "set_models ms s = s\<lparr>registry := (registry s)\<lparr>models := ms\<rparr>\<rparr>"

definition required_fields :: "string list" where
  "required_fields =
     [''id'', ''version'', ''algorithm'', ''metrics'', ''status'', ''file_path'']"

text \<open>\<open>field in model_data\<close>, for the names of \<open>required_fields\<close>.\<close>

definition has_field :: "model_data \<Rightarrow> string \<Rightarrow> bool" where
  "has_field md f =
     (if f = ''id'' then md_id md \<noteq> None
      else if f = ''version'' then md_version md \<noteq> None
      else if f = ''algorithm'' then md_algorithm md \<noteq> None
      else if f = ''metrics'' then md_metrics md \<noteq> None
      else if f = ''status'' then md_status md \<noteq> None
      else if f = ''file_path'' then md_file_path md \<noteq> None
      else False)"

text \<open>\<open>not model_data.get('id')\<close>: the id is missing, \<open>None\<close> or the empty string.\<close>

definition id_falsy :: "model_data \<Rightarrow> bool" where
  "id_falsy md = (case md_id md of None \<Rightarrow> True | Some None \<Rightarrow> True | Some (Some v) \<Rightarrow> v = [])"

definition deactivate_other_models :: "string \<Rightarrow> entry list \<Rightarrow> entry list" where
  "deactivate_other_models mt ms =
     map (\<lambda>model.
            if model_type model = Some mt \<and> status model = ''active''
               \<and> status model \<noteq> ''candidate''
            then model\<lparr>status := ''archived''\<rparr> else model) ms"

text \<open>The dictionary literal of \<open>add_model\<close>, built once validation has passed.\<close>

definition model_entry :: "model_data \<Rightarrow> string \<Rightarrow> string \<Rightarrow> entry" where
  "model_entry md uuid4 now_created =
     \<lparr> id_key = (if id_falsy md then uuid4 else the (the (md_id md))),
       version = the (md_version md),
       algorithm = the (md_algorithm md),
       metrics = the (md_metrics md),
       created_at = now_created,
       status = the (md_status md),
       file_path = the (md_file_path md),
       model_type = Some (case md_model_type md of None \<Rightarrow> ''unknown'' | Some t \<Rightarrow> t),
       training_session_id = md_training_session_id md,
       description = (case md_description md of None \<Rightarrow> [] | Some d \<Rightarrow> d),
       tags = (case md_tags md of None \<Rightarrow> [] | Some ts \<Rightarrow> ts),
       updated_at = None,
       promoted_at = None \<rparr>"

text \<open>The returned dictionary is the appended object itself, so it shows what
  \<open>_deactivate_other_models\<close> did to it: it is read back from the end of the list.\<close>

definition add_model ::
  "model_data \<Rightarrow> string \<Rightarrow> string \<Rightarrow> string \<Rightarrow> store \<Rightarrow> (error + entry) \<times> store" where
  "add_model md uuid4 now_created now_saved s =
     (case find (\<lambda>f. \<not> has_field md f) required_fields of
        Some f \<Rightarrow> (Inl (ValueError (''Missing required field: '' @ f)), s)
      | None \<Rightarrow>
          (let ms1 = models (registry s) @ [model_entry md uuid4 now_created];
               ms2 = (if status (last ms1) = ''active''
                      then deactivate_other_models (the (model_type (last ms1))) ms1
                      else ms1)
           in (Inr (last ms2), save_registry now_saved (set_models ms2 s))))"

definition get_models_by_status :: "string \<Rightarrow> entry list \<Rightarrow> entry list" where
  "get_models_by_status st ms = filter (\<lambda>model. status model = st) ms"

definition get_models_by_type :: "string \<Rightarrow> entry list \<Rightarrow> entry list" where
  "get_models_by_type mt ms = filter (\<lambda>model. model_type model = Some mt) ms"

text \<open>The position of the dictionary that \<open>get_model_by_id\<close> returns: the loop leaves at
  the first match. The callers mutate the dictionary at that position in place.\<close>

fun get_model_index :: "string \<Rightarrow> entry list \<Rightarrow> nat option" where
  "get_model_index model_id [] = None"
| "get_model_index model_id (model # ms) =
     (if id_key model = model_id then Some 0
      else map_option Suc (get_model_index model_id ms))"

definition get_model_by_id :: "string \<Rightarrow> entry list \<Rightarrow> entry option" where
  "get_model_by_id model_id ms = map_option (\<lambda>i. ms ! i) (get_model_index model_id ms)"

text \<open>Python's \<open>max(xs, key=f)\<close> on a non-empty sequence: a later element replaces the
  current best only when its key is strictly greater.\<close>

fun py_max_from :: "('a \<Rightarrow> 'k::linorder) \<Rightarrow> 'a \<Rightarrow> 'a list \<Rightarrow> 'a" where
  "py_max_from key best [] = best"
| "py_max_from key best (x # xs) =
     (if key best < key x then py_max_from key x xs else py_max_from key best xs)"

definition py_max :: "('a \<Rightarrow> 'k::linorder) \<Rightarrow> 'a list \<Rightarrow> 'a option" where
  "py_max key xs = (case xs of [] \<Rightarrow> None | x # rest \<Rightarrow> Some (py_max_from key x rest))"

text \<open>\<open>x['metrics'].get('accuracy', 0)\<close>.\<close>

definition accuracy :: "entry \<Rightarrow> real" where
  "accuracy model = (case metrics model ''accuracy'' of None \<Rightarrow> 0 | Some v \<Rightarrow> v)"

text \<open>The positions of the candidates of a type, in ledger order.\<close>

definition candidate_indices :: "string \<Rightarrow> entry list \<Rightarrow> nat list" where
  "candidate_indices mt ms =
     filter (\<lambda>i. model_type (ms ! i) = Some mt \<and> status (ms ! i) = ''candidate'')
       [0..<length ms]"

definition promote_best_candidate :: "string \<Rightarrow> string \<Rightarrow> entry list \<Rightarrow> entry list" where
  "promote_best_candidate mt now ms =
     (case py_max (\<lambda>i. accuracy (ms ! i)) (candidate_indices mt ms) of
        None \<Rightarrow> ms
      | Some b \<Rightarrow> ms[b := (ms ! b)\<lparr>status := ''active'', promoted_at := Some now\<rparr>])"

definition valid_statuses :: "string list" where
  "valid_statuses = [''active'', ''candidate'', ''archived'']"

text \<open>Python's \<open>repr\<close> of a list of plain strings, as an f-string prints it.\<close>

fun repr_items :: "string list \<Rightarrow> string" where
  "repr_items [] = []"
| "repr_items [x] = [CHR 0x27] @ x @ [CHR 0x27]"
| "repr_items (x # xs) = [CHR 0x27] @ x @ [CHR 0x27] @ '', '' @ repr_items xs"

definition repr_list :: "string list \<Rightarrow> string" where
  "repr_list xs = ''['' @ repr_items xs @ '']''"

definition update_model_status ::
  "string \<Rightarrow> string \<Rightarrow> string \<Rightarrow> string \<Rightarrow> string \<Rightarrow> store \<Rightarrow> (error + bool) \<times> store" where
  "update_model_status model_id new_status now_updated now_promoted now_saved s =
     (if new_status \<notin> set valid_statuses
      then (Inl (ValueError (''Invalid status: '' @ new_status @ ''. Must be one of ''
                              @ repr_list valid_statuses)), s)
      else
        (case get_model_index model_id (models (registry s)) of
           None \<Rightarrow> (Inl (ValueError (''Model not found: '' @ model_id)), s)
         | Some i \<Rightarrow>
             (let ms = models (registry s);
                  model = ms ! i;
                  old_status = status model;
                  ms1 = ms[i := model\<lparr>status := new_status, updated_at := Some now_updated\<rparr>];
                  mt = (case model_type model of None \<Rightarrow> ''unknown'' | Some t \<Rightarrow> t);
                  ms2 = (if new_status = ''active'' then deactivate_other_models mt ms1
                         else if old_status = ''active'' \<and> new_status \<noteq> ''active''
                         then promote_best_candidate mt now_promoted ms1
                         else ms1)
              in (Inr True, save_registry now_saved (set_models ms2 s)))))"

text \<open>\<open>_load_or_initialize_registry\<close> when no registry file exists: the fresh document is
  saved at once, so memory and file agree.\<close>

definition new_store :: "string \<Rightarrow> string \<Rightarrow> store" where
  "new_store now_created now_saved =
     (let r = \<lparr> reg_version = ''1.0.0'', reg_created_at = now_created,
                 reg_updated_at = now_saved, models = [] \<rparr>
      in \<lparr> registry = r, registry_file = r \<rparr>)"

text \<open>All six required keys are present.\<close>

definition all_required :: "model_data \<Rightarrow> bool" where
  "all_required md \<longleftrightarrow>
     md_id md \<noteq> None \<and> md_version md \<noteq> None \<and> md_algorithm md \<noteq> None \<and>
     md_metrics md \<noteq> None \<and> md_status md \<noteq> None \<and> md_file_path md \<noteq> None"

subsection \<open>Sample data\<close>

text \<open>The two dictionaries that \<^verbatim>\<open>ml/demo.py\<close> registers.\<close>

definition demo_model1 :: model_data where
  "demo_model1 =
     \<lparr> md_id = Some (Some ''demo-model-1''), md_version = Some ''v1.0.0'',
       md_algorithm = Some ''LogisticRegression'',
       md_metrics = Some [''accuracy'' \<mapsto> 0.85, ''f1_score'' \<mapsto> 0.82],
       md_status = Some ''active'',
       md_file_path = Some ''demo_models/full_time_v1_0_0.joblib'',
       md_model_type = Some ''full_time'', md_training_session_id = None,
       md_description = None, md_tags = None \<rparr>"

definition demo_model2 :: model_data where
  "demo_model2 =
     \<lparr> md_id = Some (Some ''demo-model-2''), md_version = Some ''v1.1.0'',
       md_algorithm = Some ''RandomForestClassifier'',
       md_metrics = Some [''accuracy'' \<mapsto> 0.87, ''f1_score'' \<mapsto> 0.85],
       md_status = Some ''candidate'',
       md_file_path = Some ''demo_models/full_time_v1_1_0.joblib'',
       md_model_type = Some ''full_time'', md_training_session_id = None,
       md_description = None, md_tags = None \<rparr>"

definition store0 :: store where
  "store0 = new_store ''2024-01-01T00:00:00'' ''2024-01-01T00:00:00''"

text \<open>The ledger after \<open>demo_model2\<close> has been added to the fresh store.\<close>

definition store_one_candidate :: store where
  "store_one_candidate =
     snd (add_model demo_model2 ''uuid-0'' ''2024-01-02T00:00:00'' ''2024-01-02T00:00:00'' store0)"

text \<open>An entry counts for a type when \<open>model.get('model_type')\<close> equals it.\<close>

definition is_active :: "string \<Rightarrow> entry \<Rightarrow> bool" where
  "is_active mt model \<longleftrightarrow> model_type model = Some mt \<and> status model = ''active''"

definition is_candidate :: "string \<Rightarrow> entry \<Rightarrow> bool" where
  "is_candidate mt model \<longleftrightarrow> model_type model = Some mt \<and> status model = ''candidate''"

text \<open>Ledgers as a registry file holds them: the spec's scenario (one active entry and
  two candidates of type \<open>full_time\<close>), and one whose candidates have equal accuracy.\<close>

definition sample_entry :: "string \<Rightarrow> real \<Rightarrow> string \<Rightarrow> string \<Rightarrow> entry" where
  "sample_entry i acc created st =
     \<lparr> id_key = i, version = ''v1.0.0'', algorithm = ''RandomForestClassifier'',
       metrics = [''accuracy'' \<mapsto> acc], created_at = created, status = st,
       file_path = i @ ''.joblib'', model_type = Some ''full_time'',
       training_session_id = None, description = [], tags = [],
       updated_at = None, promoted_at = None \<rparr>"

definition loaded_store :: "entry list \<Rightarrow> store" where
  "loaded_store ms =
     (let r = \<lparr> reg_version = ''1.0.0'', reg_created_at = ''2024-01-01T00:00:00'',
                 reg_updated_at = ''2024-01-01T00:00:00'', models = ms \<rparr>
      in \<lparr> registry = r, registry_file = r \<rparr>)"

definition scenario_ledger :: "entry list" where
  "scenario_ledger =
     [sample_entry ''champion'' 0.85 ''2024-01-01T00:00:00'' ''active'',
      sample_entry ''challenger-2'' 0.82 ''2024-01-02T00:00:00'' ''candidate'',
      sample_entry ''challenger-1'' 0.89 ''2024-01-03T00:00:00'' ''candidate'']"

definition tie_ledger :: "entry list" where
  "tie_ledger =
     [sample_entry ''champion'' 0.85 ''2024-01-01T00:00:00'' ''active'',
      sample_entry ''older'' 0.80 ''2024-01-02T00:00:00'' ''candidate'',
      sample_entry ''newer'' 0.80 ''2024-01-03T00:00:00'' ''candidate'']"

subsection \<open>Cleanup and import\<close>

text \<open>\<open>model.get('model_type', 'unknown')\<close>, the grouping key of \<open>cleanup_old_models\<close>.\<close>

definition type_key :: "entry \<Rightarrow> string" where
  "type_key model = (case model_type model of None \<Rightarrow> ''unknown'' | Some t \<Rightarrow> t)"

text \<open>\<open>xs.sort(key=f, reverse=True)\<close>: descending, and stable (elements with equal keys
  keep their order), which is a stable ascending sort of the reversed list, reversed.\<close>

definition py_sorted_rev :: "('a \<Rightarrow> 'k::linorder) \<Rightarrow> 'a list \<Rightarrow> 'a list" where
  "py_sorted_rev key xs = rev (sort_key key (rev xs))"

text \<open>The slice \<open>xs[:k]\<close> for an integer \<open>k\<close>; a negative \<open>k\<close> drops from the end.\<close>

definition py_slice_to :: "int \<Rightarrow> 'a list \<Rightarrow> 'a list" where
  "py_slice_to k xs = (if 0 \<le> k then take (nat k) xs else take (length xs - nat (- k)) xs)"

text \<open>The dictionary \<open>models_by_type\<close>: the keys in the order of their first entry, each
  with its entries in ledger order.\<close>

definition models_by_type :: "entry list \<Rightarrow> (string \<times> entry list) list" where
  "models_by_type ms =
     map (\<lambda>t. (t, filter (\<lambda>model. type_key model = t) ms))
       (rev (remdups (rev (map type_key ms))))"

text \<open>The loop over \<open>models_to_remove\<close> on the pair of the ledger and \<open>cleaned_up\<close>.
  \<open>list.remove\<close> deletes the first equal element and raises \<open>ValueError\<close> when there is
  none; the ledger then stays as far as it was changed.\<close>

fun remove_loop :: "entry list \<Rightarrow> entry list \<times> nat \<Rightarrow> error option \<times> entry list \<times> nat" where
  "remove_loop [] (ms, cleaned_up) = (None, ms, cleaned_up)"
| "remove_loop (model # rest) (ms, cleaned_up) =
     (if model \<in> set ms then remove_loop rest (remove1 model ms, Suc cleaned_up)
      else (Some (ValueError ''list.remove(x): x not in list''), ms, cleaned_up))"

fun type_loop ::
  "int \<Rightarrow> (string \<times> entry list) list \<Rightarrow> entry list \<times> nat
     \<Rightarrow> error option \<times> entry list \<times> nat" where
  "type_loop keep_per_type [] acc = (None, acc)"
| "type_loop keep_per_type ((mt, type_models) # rest) acc =
     (let sorted_models = py_sorted_rev created_at type_models;
          to_keep = filter (\<lambda>m. status m \<in> set [''active'', ''candidate'']) sorted_models
                    @ py_slice_to keep_per_type
                        (filter (\<lambda>m. status m = ''archived'') sorted_models);
          models_to_remove = filter (\<lambda>m. m \<notin> set to_keep) sorted_models
      in case remove_loop models_to_remove acc of
           (Some e, acc') \<Rightarrow> (Some e, acc')
         | (None, acc') \<Rightarrow> type_loop keep_per_type rest acc')"

definition cleanup_old_models :: "int \<Rightarrow> string \<Rightarrow> store \<Rightarrow> (error + nat) \<times> store" where
  "cleanup_old_models keep_per_type now_saved s =
     (case type_loop keep_per_type (models_by_type (models (registry s)))
             (models (registry s), 0) of
        (Some e, ms, cleaned_up) \<Rightarrow> (Inl e, set_models ms s)
      | (None, ms, cleaned_up) \<Rightarrow>
          (Inr cleaned_up,
           if 0 < cleaned_up then save_registry now_saved (set_models ms s)
           else set_models ms s))"

text \<open>\<open>import_file\<close> is \<open>None\<close> when the file is missing or unreadable (the exception is
  caught and \<open>False\<close> returned), and otherwise holds \<open>import_data.get('models', [])\<close>.\<close>

definition import_registry ::
  "entry list option \<Rightarrow> bool \<Rightarrow> string \<Rightarrow> string \<Rightarrow> string \<Rightarrow> store \<Rightarrow> bool \<times> store" where
  "import_registry import_file merge now_created now_updated now_saved s =
     (case import_file of
        None \<Rightarrow> (False, s)
      | Some imported_models \<Rightarrow>
          (if merge
           then (let existing_ids = set (map id_key (models (registry s)));
                     new_models = filter (\<lambda>m. id_key m \<notin> existing_ids) imported_models
                 in (True, save_registry now_saved
                             (set_models (models (registry s) @ new_models) s)))
           else (True, save_registry now_saved
                         (s\<lparr>registry := \<lparr> reg_version = ''1.0.0'', reg_created_at = now_created,
                                         reg_updated_at = now_updated,
                                         models = imported_models \<rparr>\<rparr>))))"

text \<open>The number of active entries of a type, and the condition that every entry carries
  a \<open>model_type\<close> (true of every entry made by \<open>add_model\<close>).\<close>

definition active_count :: "string \<Rightarrow> entry list \<Rightarrow> nat" where
  "active_count mt ms = length (filter (is_active mt) ms)"

definition has_types :: "entry list \<Rightarrow> bool" where
  "has_types ms = list_all (\<lambda>model. model_type model \<noteq> None) ms"

text \<open>An import file with two active entries of one type, and a ledger with archived
  entries.\<close>

definition two_active :: "entry list" where
  "two_active =
     [sample_entry ''first'' 0.85 ''2024-01-01T00:00:00'' ''active'',
      sample_entry ''second'' 0.87 ''2024-01-02T00:00:00'' ''active'']"

definition archive_ledger :: "entry list" where
  "archive_ledger =
     [sample_entry ''champion'' 0.85 ''2024-01-01T00:00:00'' ''active'',
      sample_entry ''old-1'' 0.70 ''2024-01-02T00:00:00'' ''archived'',
      sample_entry ''old-2'' 0.71 ''2024-01-03T00:00:00'' ''archived'']"

section \<open>Prediction blending (\<^verbatim>\<open>ml/ensemble_predictor.py\<close>)\<close>

text \<open>
  \<open>probabilities\<close> is the dictionary from member id to its probability vector, in
  insertion order; \<open>self.model_weights\<close> is only read with \<open>.get(model_id, 0)\<close>. The
  vectors are one-dimensional numpy arrays, modelled as lists. A class label is an \<open>int\<close>.
\<close>

record ensemble_result =
  prediction :: int
  confidence :: real

text \<open>\<open>sorted(list(all_classes))\<close> after every \<open>range(len(proba))\<close> has been added to
  the set.\<close>

definition all_classes :: "(string \<times> real list) list \<Rightarrow> nat list" where
  "all_classes probabilities =
     sort (remdups (concat (map (\<lambda>(model_id, proba). [0..<length proba]) probabilities)))"

text \<open>numpy's in-place \<open>acc += v\<close> on one-dimensional arrays: the shapes must agree,
  except that a one-element \<open>v\<close> is broadcast to every position; any other shape raises
  numpy's \<open>ValueError\<close> (operands could not be broadcast together).\<close>

definition np_iadd :: "real list \<Rightarrow> real list \<Rightarrow> error + real list" where
  "np_iadd acc v =
     (if length v = length acc then Inr (map2 (+) acc v)
      else if length v = 1 then Inr (map (\<lambda>a. a + hd v) acc)
      else Inl (BroadcastError (length acc) (length v)))"

text \<open>\<open>self.model_weights.get(model_id, 0)\<close>.\<close>

definition weight_of :: "(string \<rightharpoonup> real) \<Rightarrow> string \<Rightarrow> real" where
  "weight_of model_weights model_id = (case model_weights model_id of None \<Rightarrow> 0 | Some w \<Rightarrow> w)"

text \<open>The loop over \<open>probabilities.items()\<close>, on the pair
  \<open>(weighted_probs, total_weight)\<close>; it stops at the first addition that raises.\<close>

fun blend_loop ::
  "(string \<rightharpoonup> real) \<Rightarrow> (string \<times> real list) list \<Rightarrow> real list \<times> real
     \<Rightarrow> error + real list \<times> real" where
  "blend_loop model_weights [] acc = Inr acc"
| "blend_loop model_weights ((model_id, proba) # rest) (weighted_probs, total_weight) =
     (let weight = weight_of model_weights model_id
      in case np_iadd weighted_probs (map (\<lambda>p. p * weight) proba) of
           Inl e \<Rightarrow> Inl e
         | Inr wp \<Rightarrow> blend_loop model_weights rest (wp, total_weight + weight))"

text \<open>The local \<open>weighted_probs\<close> after the normalisation step.\<close>

definition blended_probs ::
  "(string \<rightharpoonup> real) \<Rightarrow> (string \<times> real list) list \<Rightarrow> error + real list" where
  "blended_probs model_weights probabilities =
     (case blend_loop model_weights probabilities
             (replicate (length (all_classes probabilities)) 0, 0) of
        Inl e \<Rightarrow> Inl e
      | Inr (weighted_probs, total_weight) \<Rightarrow>
          Inr (if total_weight > 0 then map (\<lambda>p. p / total_weight) weighted_probs
               else weighted_probs))"

text \<open>\<open>np.argmax\<close> returns the first position of the maximum and \<open>np.max\<close> the
  maximum; both raise \<open>ValueError\<close> on an empty array.\<close>

definition np_argmax :: "real list \<Rightarrow> error + nat" where
  "np_argmax xs = (case py_max (\<lambda>i. xs ! i) [0..<length xs] of
                     None \<Rightarrow> Inl EmptySequenceError | Some i \<Rightarrow> Inr i)"

definition np_max :: "real list \<Rightarrow> error + real" where
  "np_max xs = (case xs of [] \<Rightarrow> Inl EmptySequenceError | x # rest \<Rightarrow> Inr (fold max rest x))"

definition weighted_probability_ensemble ::
  "(string \<rightharpoonup> real) \<Rightarrow> (string \<times> real list) list \<Rightarrow> error + ensemble_result" where
  "weighted_probability_ensemble model_weights probabilities =
     (case blended_probs model_weights probabilities of
        Inl e \<Rightarrow> Inl e
      | Inr weighted_probs \<Rightarrow>
          (case np_argmax weighted_probs of
             Inl e \<Rightarrow> Inl e
           | Inr k \<Rightarrow>
               (case np_max weighted_probs of
                  Inl e \<Rightarrow> Inl e
                | Inr c \<Rightarrow>
                    Inr \<lparr> prediction = int (all_classes probabilities ! k),
                          confidence = c \<rparr>)))"


text \<open>The sum of the weights of the members that contributed a vector, and the
  condition that every contributed vector has length \<open>n\<close>.\<close>

definition total_weight_of :: "(string \<rightharpoonup> real) \<Rightarrow> (string \<times> real list) list \<Rightarrow> real" where
  "total_weight_of model_weights probabilities =
     sum_list (map (\<lambda>(model_id, proba). weight_of model_weights model_id) probabilities)"

definition same_length :: "nat \<Rightarrow> (string \<times> real list) list \<Rightarrow> bool" where
  "same_length n probabilities = list_all (\<lambda>(model_id, proba). length proba = n) probabilities"


text \<open>The blend weights of the spec's scenario and two members' probability vectors.\<close>

definition scenario_weights :: "string \<rightharpoonup> real" where
  "scenario_weights = [''champion'' \<mapsto> 0.7, ''challenger-1'' \<mapsto> 0.15, ''challenger-2'' \<mapsto> 0.15]"

definition challenger_probabilities :: "(string \<times> real list) list" where
  "challenger_probabilities =
     [(''challenger-1'', [0.2, 0.5, 0.3]), (''challenger-2'', [0.6, 0.3, 0.1])]"

section \<open>Ensemble loader and predictor (\<^verbatim>\<open>ml/ensemble_predictor.py\<close>)\<close>

text \<open>A loaded model: its \<open>predict\<close> capability on preprocessed features of type \<open>'x\<close>
  (the first element of the returned array) and, if the object has the attribute,
  \<open>predict_proba\<close>. Either call may raise.\<close>

record 'x model_handle =
  predict :: "'x \<Rightarrow> error + int"
  predict_proba :: "('x \<Rightarrow> error + real list) option"

text \<open>An entry of \<open>self.model_info\<close>.\<close>

record info =
  info_version :: string
  info_algorithm :: string
  info_accuracy :: real
  info_status :: string

text \<open>The predictor's dictionaries. \<open>self.models\<close> is iterated, so it keeps its insertion
  order; the other two are only looked up.\<close>

record 'x predictor =
  models_p :: "(string \<times> 'x model_handle \<times> entry) list"
  model_weights :: "string \<rightharpoonup> real"
  model_info :: "string \<rightharpoonup> info"
  feature_engineer :: bool

definition new_predictor :: "'x predictor" where
  "new_predictor = \<lparr> models_p = [], model_weights = Map.empty, model_info = Map.empty,
                      feature_engineer = False \<rparr>"

text \<open>\<open>d[k] = v\<close> on an insertion-ordered dictionary: an existing key keeps its place.\<close>

fun dict_set :: "'k \<Rightarrow> 'v \<Rightarrow> ('k \<times> 'v) list \<Rightarrow> ('k \<times> 'v) list" where
  "dict_set k v [] = [(k, v)]"
| "dict_set k v ((k', v') # rest) =
     (if k' = k then (k, v) # rest else (k', v') # dict_set k v rest)"

text \<open>\<open>artifacts\<close> maps a file path to the model that \<open>joblib.load\<close> yields there, and
  to \<open>None\<close> when the file is missing or cannot be loaded: both ways the entry is
  skipped.\<close>

definition load_single_model ::
  "(string \<Rightarrow> 'x model_handle option) \<Rightarrow> entry \<Rightarrow> real \<Rightarrow> 'x predictor \<Rightarrow> 'x predictor" where
  "load_single_model artifacts m_entry weight p =
     (case artifacts (file_path m_entry) of
        None \<Rightarrow> p
      | Some model \<Rightarrow>
          p\<lparr> models_p := dict_set (id_key m_entry) (model, m_entry) (models_p p),
             model_weights := (model_weights p)(id_key m_entry \<mapsto> weight),
             model_info := (model_info p)(id_key m_entry \<mapsto>
                \<lparr> info_version = version m_entry, info_algorithm = algorithm m_entry,
                  info_accuracy = accuracy m_entry, info_status = status m_entry \<rparr>),
             feature_engineer := True \<rparr>)"

text \<open>The filter \<open>if self.model_type: ...\<close>; \<open>None\<close> and the empty string do not
  filter.\<close>

definition type_filter :: "string option \<Rightarrow> entry list \<Rightarrow> entry list" where
  "type_filter mt ms =
     (case mt of None \<Rightarrow> ms
      | Some t \<Rightarrow> if t = [] then ms else filter (\<lambda>m. model_type m = Some t) ms)"

definition active_models :: "string option \<Rightarrow> entry list \<Rightarrow> entry list" where
  "active_models mt ms = type_filter mt (get_models_by_status ''active'' ms)"

definition candidate_models :: "string option \<Rightarrow> entry list \<Rightarrow> entry list" where
  "candidate_models mt ms = type_filter mt (get_models_by_status ''candidate'' ms)"

text \<open>The locals \<open>champion\<close>, \<open>challengers\<close> and \<open>challenger_weight\<close> of
  \<open>_load_models\<close>, and the calls of \<open>_load_single_model\<close> it makes, in order.\<close>

definition champion :: "string option \<Rightarrow> entry list \<Rightarrow> entry option" where
  "champion mt ms = py_max created_at (active_models mt ms)"

definition challengers :: "string option \<Rightarrow> entry list \<Rightarrow> entry list" where
  "challengers mt ms = take 2 (py_sorted_rev accuracy (candidate_models mt ms))"

definition challenger_weight :: "string option \<Rightarrow> entry list \<Rightarrow> real" where
  "challenger_weight mt ms =
     (if challengers mt ms \<noteq> [] then 0.3 / real (length (challengers mt ms)) else 0)"

definition load_calls :: "string option \<Rightarrow> entry list \<Rightarrow> (entry \<times> real) list" where
  "load_calls mt ms =
     (case champion mt ms of None \<Rightarrow> [] | Some c \<Rightarrow> [(c, 0.7)])
     @ map (\<lambda>c. (c, challenger_weight mt ms)) (challengers mt ms)"

definition load_models ::
  "(string \<Rightarrow> 'x model_handle option) \<Rightarrow> string option \<Rightarrow> entry list \<Rightarrow> 'x predictor
     \<Rightarrow> 'x predictor" where
  "load_models artifacts mt ms p =
     fold (\<lambda>(m_entry, weight). load_single_model artifacts m_entry weight)
       (load_calls mt ms) p"


text \<open>\<open>d.get(k, default)\<close>.\<close>

definition dict_get :: "('k \<times> 'v) list \<Rightarrow> 'k \<Rightarrow> 'v \<Rightarrow> 'v" where
  "dict_get d k dflt = (case map_of d k of None \<Rightarrow> dflt | Some v \<Rightarrow> v)"

text \<open>\<open>_weighted_voting_ensemble\<close>: the dictionary \<open>vote_counts\<close>, then Python's \<open>max\<close>
  over its items by vote.\<close>

definition vote_counts :: "(string \<rightharpoonup> real) \<Rightarrow> (string \<times> int) list \<Rightarrow> (int \<times> real) list" where
  "vote_counts weights predictions =
     fold (\<lambda>(model_id, pred) vc.
             dict_set pred (dict_get vc pred 0 + weight_of weights model_id) vc)
       predictions []"

definition weighted_voting_ensemble ::
  "(string \<rightharpoonup> real) \<Rightarrow> (string \<times> int) list \<Rightarrow> error + ensemble_result" where
  "weighted_voting_ensemble weights predictions =
     (let vc = vote_counts weights predictions
      in (case py_max snd vc of
            None \<Rightarrow> Inl EmptySequenceError
          | Some (predicted_class, votes) \<Rightarrow>
              (let total_votes = sum_list (map snd vc)
               in Inr \<lparr> prediction = predicted_class,
                        confidence = (if total_votes > 0 then votes / total_votes else 0) \<rparr>)))"

definition ensemble_predict ::
  "(string \<rightharpoonup> real) \<Rightarrow> (string \<times> int) list \<Rightarrow> (string \<times> real list) list
     \<Rightarrow> error + ensemble_result" where
  "ensemble_predict weights predictions probabilities =
     (if predictions = [] then Inl (ValueError ''No predictions to ensemble'')
      else if length predictions = 1
      then Inr \<lparr> prediction = snd (hd predictions), confidence = 1 \<rparr>
      else if probabilities \<noteq> [] then weighted_probability_ensemble weights probabilities
      else weighted_voting_ensemble weights predictions)"

text \<open>The loop of \<open>predict_single\<close> over \<open>self.models.items()\<close>. A member whose
  \<open>predict\<close> raises is skipped; when only \<open>predict_proba\<close> raises, the prediction already
  stored stays.\<close>

fun member_loop ::
  "'x \<Rightarrow> (string \<times> 'x model_handle \<times> entry) list
     \<Rightarrow> (string \<times> int) list \<times> (string \<times> real list) list
     \<Rightarrow> (string \<times> int) list \<times> (string \<times> real list) list" where
  "member_loop x [] acc = acc"
| "member_loop x ((model_id, model, e) # rest) (predictions, probabilities) =
     (case predict model x of
        Inl err \<Rightarrow> member_loop x rest (predictions, probabilities)
      | Inr pred \<Rightarrow>
          (case predict_proba model of
             None \<Rightarrow> member_loop x rest (dict_set model_id pred predictions, probabilities)
           | Some proba_of \<Rightarrow>
               (case proba_of x of
                  Inl err \<Rightarrow>
                    member_loop x rest (dict_set model_id pred predictions, probabilities)
                | Inr proba \<Rightarrow>
                    member_loop x rest (dict_set model_id pred predictions,
                                        dict_set model_id proba probabilities))))"

text \<open>The dictionary that \<open>predict_single\<close> returns; \<open>predict_batch\<close> adds
  \<open>match_index\<close>.\<close>

record breakdown =
  probabilities_b :: "real list"
  weight_b :: real
  model_info_b :: "info option"

record prediction_result = ensemble_result +
  model_weights_r :: "string \<rightharpoonup> real"
  individual_predictions :: "(string \<times> int) list"
  individual_probabilities :: "(string \<times> real list) list"
  model_info_r :: "string \<rightharpoonup> info"
  ensemble_method :: string
  timestamp :: string
  probability_breakdown :: "(string \<times> breakdown) list option"
  match_index :: "nat option"

definition get_probability_breakdown ::
  "'x predictor \<Rightarrow> (string \<times> real list) list \<Rightarrow> (string \<times> breakdown) list" where
  "get_probability_breakdown p probabilities =
     map (\<lambda>(model_id, proba).
            (model_id, \<lparr> probabilities_b = proba,
                         weight_b = weight_of (model_weights p) model_id,
                         model_info_b = model_info p model_id \<rparr>)) probabilities"

text \<open>\<open>preprocess\<close> stands for building the data frame and \<open>_preprocess_data\<close>; it
  may raise. \<open>now\<close> is the clock reading of the call.\<close>

definition predict_single ::
  "'x predictor \<Rightarrow> ('d \<Rightarrow> error + 'x) \<Rightarrow> string \<Rightarrow> 'd \<Rightarrow> error + prediction_result" where
  "predict_single p preprocess now match_data =
     (if models_p p = [] then Inl (ValueError ''No models loaded for prediction'')
      else (case preprocess match_data of
             Inl e \<Rightarrow> Inl e
           | Inr x \<Rightarrow>
               (case member_loop x (models_p p) ([], []) of
                  (predictions, probabilities) \<Rightarrow>
                    if predictions = [] then Inl (ValueError ''All model predictions failed'')
                    else (case ensemble_predict (model_weights p) predictions probabilities of
                           Inl e \<Rightarrow> Inl e
                         | Inr r \<Rightarrow>
                             Inr \<lparr> prediction = prediction r, confidence = confidence r,
                                   model_weights_r = model_weights p,
                                   individual_predictions = predictions,
                                   individual_probabilities = probabilities,
                                   model_info_r = model_info p,
                                   ensemble_method = ''weighted_average'',
                                   timestamp = now,
                                   probability_breakdown =
                                     (if probabilities \<noteq> []
                                      then Some (get_probability_breakdown p probabilities)
                                      else None),
                                   match_index = None \<rparr>))))"

text \<open>An element of the list that \<open>predict_batch\<close> returns: a prediction, or the error
  dictionary with \<open>match_index\<close>, \<open>error\<close> and \<open>timestamp\<close>.\<close>

datatype batch_result =
    Prediction prediction_result
  | ErrorRecord nat string string

text \<open>\<open>str_of\<close> is Python's \<open>str\<close> on the caught exception, and \<open>now i\<close> the clock
  reading while item \<open>i\<close> is handled (inside \<open>predict_single\<close>, or in the handler).\<close>

definition predict_batch ::
  "(error \<Rightarrow> string) \<Rightarrow> 'x predictor \<Rightarrow> ('d \<Rightarrow> error + 'x) \<Rightarrow> (nat \<Rightarrow> string) \<Rightarrow> 'd list
     \<Rightarrow> batch_result list" where
  "predict_batch str_of p preprocess now matches_data =
     map (\<lambda>(i, match_data).
            case predict_single p preprocess (now i) match_data of
              Inr prediction_r \<Rightarrow> Prediction (prediction_r\<lparr>match_index := Some i\<rparr>)
            | Inl e \<Rightarrow> ErrorRecord i (str_of e) (now i))
       (enumerate 0 matches_data)"


text \<open>A sample predictor: the three models of the spec's scenario, which fail on a
  negative feature, loaded from the scenario ledger.\<close>

definition message :: "error \<Rightarrow> string" where
  "message e = (case e of ValueError m \<Rightarrow> m | CollaboratorError m \<Rightarrow> m | _ \<Rightarrow> [])"

definition sample_model :: "int \<Rightarrow> real list \<Rightarrow> int model_handle" where
  "sample_model label proba =
     \<lparr> predict = (\<lambda>x. if x < 0 then Inl (CollaboratorError ''negative feature'') else Inr label),
       predict_proba = Some (\<lambda>x. Inr proba) \<rparr>"

definition sample_artifacts :: "string \<Rightarrow> int model_handle option" where
  "sample_artifacts path =
     (if path = ''champion.joblib'' then Some (sample_model 1 [0.2, 0.8])
      else if path = ''challenger-1.joblib'' then Some (sample_model 1 [0.3, 0.7])
      else if path = ''challenger-2.joblib'' then Some (sample_model 0 [0.6, 0.4])
      else None)"

definition scenario_predictor :: "int predictor" where
  "scenario_predictor =
     load_models sample_artifacts (Some ''full_time'') scenario_ledger new_predictor"

definition sample_clock :: "nat \<Rightarrow> string" where
  "sample_clock i = (if i = 0 then ''2024-03-01T00:00:00'' else ''2024-03-01T00:00:01'')"


text \<open>A ledger whose active entry and candidate share one id, and a directory in which
  every artifact loads.\<close>

definition dup_ledger :: "entry list" where
  "dup_ledger =
     [sample_entry ''model'' 0.85 ''2024-01-01T00:00:00'' ''active'',
      sample_entry ''model'' 0.80 ''2024-01-02T00:00:00'' ''candidate'']"

definition any_artifact :: "string \<Rightarrow> int model_handle option" where
  "any_artifact path = Some (sample_model 1 [0.2, 0.8])"

section \<open>Properties\<close>

lemmas eval_defs = add_model_def model_entry_def new_store_def demo_model1_def demo_model2_def
  store0_def store_one_candidate_def required_fields_def has_field_def all_required_def
  id_falsy_def deactivate_other_models_def save_registry_def set_models_def Let_def
  update_model_status_def valid_statuses_def promote_best_candidate_def candidate_indices_def
  py_max_def accuracy_def get_model_by_id_def

subsection \<open>Basic facts about the ledger operations\<close>

lemma models_saved [simp]:
  "models (registry (save_registry t (set_models ms s))) = ms"
  "registry_file (save_registry t (set_models ms s)) = registry (save_registry t (set_models ms s))"
  by (simp_all add: save_registry_def set_models_def Let_def)

lemma deactivate_ids: "map id_key (deactivate_other_models mt ms) = map id_key ms"
  by (simp add: deactivate_other_models_def)

lemma deactivate_length: "length (deactivate_other_models mt ms) = length ms"
  by (simp add: deactivate_other_models_def)

lemma last_deactivate:
  "ms \<noteq> [] \<Longrightarrow> id_key (last (deactivate_other_models mt ms)) = id_key (last ms)"
  by (simp add: deactivate_other_models_def last_map)



lemma get_model_index_first:
  "get_model_index x ms = Some i \<Longrightarrow>
     i < length ms \<and> id_key (ms ! i) = x \<and> (\<forall>j<i. id_key (ms ! j) \<noteq> x)"
proof (induction ms arbitrary: i)
  case Nil then show ?case by simp
next
  case (Cons m ms)
  show ?case
  proof (cases "id_key m = x")
    case True with Cons.prems show ?thesis by simp
  next
    case False
    with Cons.prems obtain k where k: "get_model_index x ms = Some k" "i = Suc k" by auto
    from Cons.IH[OF k(1)] False k(2) show ?thesis
      by (auto simp: nth_Cons split: nat.splits)
  qed
qed

lemma find_missing_None:
  "find (\<lambda>f. \<not> has_field md f) required_fields = None \<longleftrightarrow> all_required md"
  by (auto simp: required_fields_def has_field_def all_required_def)

lemma find_missing_Some:
  "find (\<lambda>f. \<not> has_field md f) required_fields = Some f \<Longrightarrow>
     \<not> all_required md \<and> f \<in> set required_fields"
proof -
  assume f: "find (\<lambda>f. \<not> has_field md f) required_fields = Some f"
  then obtain i where "i < length required_fields" "required_fields ! i = f"
    by (auto simp: find_Some_iff)
  then have "f \<in> set required_fields" using nth_mem by blast
  moreover from f find_missing_None[of md] have "\<not> all_required md" by auto
  ultimately show ?thesis by simp
qed

lemma add_model_fails:
  "\<not> all_required md \<Longrightarrow>
     \<exists>f \<in> set required_fields.
       add_model md u t1 t2 s = (Inl (ValueError (''Missing required field: '' @ f)), s)"
proof -
  assume a: "\<not> all_required md"
  then obtain f where f: "find (\<lambda>f. \<not> has_field md f) required_fields = Some f"
    using find_missing_None[of md] by (cases "find (\<lambda>f. \<not> has_field md f) required_fields") auto
  from find_missing_Some[OF f] have "f \<in> set required_fields" by simp
  moreover from f have "add_model md u t1 t2 s = (Inl (ValueError (''Missing required field: '' @ f)), s)"
    by (simp add: add_model_def)
  ultimately show ?thesis by blast
qed

lemma add_model_succeeds:
  assumes "all_required md"
  shows "\<exists>m ms'. add_model md u t1 t2 s = (Inr m, save_registry t2 (set_models ms' s))
           \<and> m = last ms' \<and> length ms' = Suc (length (models (registry s)))
           \<and> id_key m = (if id_falsy md then u else the (the (md_id md)))
           \<and> map id_key ms' = map id_key (models (registry s)) @ [id_key m]
           \<and> (\<forall>j < length (models (registry s)).
                 ms' ! j = models (registry s) ! j
               \<or> ms' ! j = (models (registry s) ! j)\<lparr>status := ''archived''\<rparr>)"
proof -
  let ?e = "model_entry md u t1"
  let ?ms1 = "models (registry s) @ [?e]"
  let ?ms2 = "if status ?e = ''active''
              then deactivate_other_models (the (model_type ?e)) ?ms1 else ?ms1"
  from assms have n: "find (\<lambda>f. \<not> has_field md f) required_fields = None"
    by (simp add: find_missing_None)
  have r: "add_model md u t1 t2 s = (Inr (last ?ms2), save_registry t2 (set_models ?ms2 s))"
    unfolding add_model_def n by (simp add: Let_def)
  have ide: "id_key ?e = (if id_falsy md then u else the (the (md_id md)))"
    by (simp add: model_entry_def)
  have l: "id_key (last ?ms2) = id_key ?e"
    by (simp add: last_deactivate)
  have len: "length ?ms2 = Suc (length (models (registry s)))"
    by (simp add: deactivate_length)
  have ids: "map id_key ?ms2 = map id_key (models (registry s)) @ [id_key ?e]"
    by (simp add: deactivate_ids)
  have old: "\<forall>j < length (models (registry s)).
                 ?ms2 ! j = models (registry s) ! j
               \<or> ?ms2 ! j = (models (registry s) ! j)\<lparr>status := ''archived''\<rparr>"
    by (simp add: deactivate_other_models_def nth_append)
  show ?thesis
    using r ide l len ids old by (intro exI[of _ "last ?ms2"] exI[of _ ?ms2]) simp
qed

subsection \<open>Activation\<close>

text \<open>Whatever the ledger, an entry added as \<open>active\<close>, or set \<open>active\<close>, ends up
  archived.\<close>

lemma add_model_active_archived:
  assumes "all_required md" and "md_status md = Some ''active''"
  shows "status (last (models (registry_file (snd (add_model md u t1 t2 s))))) = ''archived''
       \<and> map_sum id status (fst (add_model md u t1 t2 s)) = Inr ''archived''"
proof -
  from assms(1) have n: "find (\<lambda>f. \<not> has_field md f) required_fields = None"
    by (simp add: find_missing_None)
  show ?thesis
    unfolding add_model_def n using assms(2)
    by (simp add: Let_def model_entry_def deactivate_other_models_def last_map)
qed

lemma update_model_status_active_archived:
  assumes "get_model_index model_id (models (registry s)) = Some i"
    and "model_type (models (registry s) ! i) = Some mt"
  shows "status (models (registry_file
           (snd (update_model_status model_id ''active'' t1 t2 t3 s))) ! i) = ''archived''"
proof -
  from get_model_index_first[OF assms(1)] have "i < length (models (registry s))" by simp
  with assms show ?thesis
    by (simp add: update_model_status_def valid_statuses_def Let_def deactivate_other_models_def)
qed


text \<open>
  Claim C1 says that after \<open>add\<close> of an entry with status \<open>active\<close>, or after
  \<open>setStatus(id, 'active')\<close>, the target entry is \<open>active\<close> in the stored ledger. The code
  does not do that: \<open>_deactivate_other_models\<close> runs after the target has been appended
  (or has been given its new status) and does not skip it, so the target is archived with
  its siblings. On the fresh store, adding the first dictionary of \<^verbatim>\<open>ml/demo.py\<close>
  (status \<open>active\<close>) stores and returns an archived entry; and adding it as a candidate
  and then setting it \<open>active\<close> leaves it archived as well.
\<close>

theorem activation_archives_target:
  "map status (models (registry_file (snd
      (add_model demo_model1 ''uuid-0'' ''2024-01-02T00:00:00'' ''2024-01-02T00:00:00'' store0))))
     = [''archived'']
   \<and> map_sum id status
       (fst (add_model demo_model1 ''uuid-0'' ''2024-01-02T00:00:00'' ''2024-01-02T00:00:00'' store0))
     = Inr ''archived''
   \<and> map status (models (registry_file store_one_candidate)) = [''candidate'']
   \<and> fst (update_model_status ''demo-model-2'' ''active''
        ''2024-01-03T00:00:00'' ''2024-01-03T00:00:00'' ''2024-01-03T00:00:00'' store_one_candidate)
       = Inr True
   \<and> map status (models (registry_file (snd (update_model_status ''demo-model-2'' ''active''
        ''2024-01-03T00:00:00'' ''2024-01-03T00:00:00'' ''2024-01-03T00:00:00''
        store_one_candidate))))
       = [''archived'']"
  by (simp add: eval_defs)

subsection \<open>Validation in \<open>add_model\<close>\<close>

text \<open>
  Claim C8, as the code has it: \<open>add_model\<close> fails exactly when one of the keys \<open>id\<close>,
  \<open>version\<close>, \<open>algorithm\<close>, \<open>metrics\<close>, \<open>status\<close>, \<open>file_path\<close> is missing from its
  argument; the failure is a \<open>ValueError\<close> naming a required field and leaves memory and
  file as they were. A generated id is assigned when the key \<open>id\<close> is present with an
  empty value (\<open>None\<close> or the empty string), and then the call succeeds; a missing \<open>id\<close>
  key is a failure like any other missing key.
\<close>

theorem add_model_validation:
  "((\<exists>e. fst (add_model md u t1 t2 s) = Inl e) \<longleftrightarrow>
      (md_id md = None \<or> md_version md = None \<or> md_algorithm md = None \<or>
       md_metrics md = None \<or> md_status md = None \<or> md_file_path md = None))
   \<and> (\<forall>e. fst (add_model md u t1 t2 s) = Inl e \<longrightarrow>
         snd (add_model md u t1 t2 s) = s
         \<and> (\<exists>f \<in> set required_fields. e = ValueError (''Missing required field: '' @ f)))
   \<and> (all_required md \<and> (md_id md = Some None \<or> md_id md = Some (Some [])) \<longrightarrow>
         (\<exists>m. fst (add_model md u t1 t2 s) = Inr m \<and> id_key m = u
            \<and> m = last (models (registry_file (snd (add_model md u t1 t2 s))))))"
proof (cases "all_required md")
  case True
  from add_model_succeeds[OF True, of u t1 t2 s] obtain m ms' where
    r: "add_model md u t1 t2 s = (Inr m, save_registry t2 (set_models ms' s))"
    and m: "m = last ms'" "id_key m = (if id_falsy md then u else the (the (md_id md)))"
    by blast
  from True have "\<not> (md_id md = None \<or> md_version md = None \<or> md_algorithm md = None \<or>
       md_metrics md = None \<or> md_status md = None \<or> md_file_path md = None)"
    by (simp add: all_required_def)
  with r m show ?thesis by (auto simp: id_falsy_def)
next
  case False
  from add_model_fails[OF False, of u t1 t2 s] obtain f where
    "f \<in> set required_fields"
    "add_model md u t1 t2 s = (Inl (ValueError (''Missing required field: '' @ f)), s)"
    by blast
  with False show ?thesis by (auto simp: all_required_def)
qed

text \<open>The theorem at work: without \<open>version\<close> the call fails and the store is unchanged;
  with an empty id the generated one is stored.\<close>

theorem add_model_validation_witness:
  "fst (add_model (demo_model1\<lparr>md_version := None\<rparr>) ''uuid-0'' ''t1'' ''t2'' store0)
     = Inl (ValueError ''Missing required field: version'')
   \<and> snd (add_model (demo_model1\<lparr>md_version := None\<rparr>) ''uuid-0'' ''t1'' ''t2'' store0) = store0
   \<and> all_required (demo_model1\<lparr>md_id := Some (Some [])\<rparr>)
   \<and> map id_key (models (registry_file (snd
        (add_model (demo_model1\<lparr>md_id := Some (Some [])\<rparr>) ''uuid-0'' ''t1'' ''t2'' store0))))
       = [''uuid-0'']"
  using add_model_validation[of "demo_model1\<lparr>md_version := None\<rparr>" "''uuid-0''" "''t1''" "''t2''" store0]
    add_model_validation[of "demo_model1\<lparr>md_id := Some (Some [])\<rparr>" "''uuid-0''" "''t1''" "''t2''" store0]
  by (simp add: eval_defs)

text \<open>Claim C8 as the spec words it lets a missing id be generated. The code refuses it:
  the first dictionary of \<^verbatim>\<open>ml/demo.py\<close> without its \<open>id\<close> key is rejected.\<close>

theorem add_model_missing_id_counterexample:
  "add_model (demo_model1\<lparr>md_id := None\<rparr>) ''uuid-0'' ''t1'' ''t2'' store0
     = (Inl (ValueError ''Missing required field: id''), store0)"
  by (simp add: eval_defs)

subsection \<open>Duplicate ids\<close>



subsection \<open>Python's \<open>max\<close> and numpy's \<open>argmax\<close>\<close>

lemmas blend_defs = weighted_probability_ensemble_def blended_probs_def all_classes_def
  np_iadd_def weight_of_def np_argmax_def np_max_def py_max_def total_weight_of_def
  same_length_def scenario_weights_def challenger_probabilities_def

lemma py_max_from_first:
  "\<exists>ys zs. b # xs = ys @ py_max_from key b xs # zs
     \<and> (\<forall>y \<in> set ys. key y < key (py_max_from key b xs))
     \<and> (\<forall>z \<in> set zs. key z \<le> key (py_max_from key b xs))"
proof (induction xs arbitrary: b)
  case Nil
  show ?case by (intro exI[of _ "[]"]) simp
next
  case (Cons x xs)
  show ?case
  proof (cases "key b < key x")
    case True
    define r where "r = py_max_from key x xs"
    from True have eq: "py_max_from key b (x # xs) = r" by (simp add: r_def)
    from Cons.IH[of x] obtain ys zs where d: "x # xs = ys @ r # zs"
      and l: "\<forall>y \<in> set ys. key y < key r"
      and g: "\<forall>z \<in> set zs. key z \<le> key r" unfolding r_def by blast
    have "key x \<le> key r"
    proof (cases ys)
      case Nil
      with d have "r = x" by simp
      then show ?thesis by simp
    next
      case (Cons y ys')
      with d have "y = x" by simp
      with l Cons show ?thesis by (simp add: less_imp_le)
    qed
    with True have br: "key b < key r" by simp
    have "b # x # xs = (b # ys) @ r # zs" using d by simp
    moreover have "\<forall>y \<in> set (b # ys). key y < key r" using l br by simp
    ultimately show ?thesis unfolding eq using g by blast
  next
    case False
    define r where "r = py_max_from key b xs"
    from False have eq: "py_max_from key b (x # xs) = r" by (simp add: r_def)
    from Cons.IH[of b] obtain ys zs where d: "b # xs = ys @ r # zs"
      and l: "\<forall>y \<in> set ys. key y < key r"
      and g: "\<forall>z \<in> set zs. key z \<le> key r" unfolding r_def by blast
    show ?thesis
    proof (cases ys)
      case Nil
      with d have rb: "r = b" and zs: "zs = xs" by simp_all
      have "b # x # xs = [] @ r # (x # xs)" using rb by simp
      moreover have "\<forall>z \<in> set (x # xs). key z \<le> key r" using g zs rb False by simp
      moreover have "\<forall>y \<in> set ([]::'a list). key y < key r" by simp
      ultimately show ?thesis unfolding eq by blast
    next
      case (Cons y ys')
      with d have y: "y = b" and xs: "xs = ys' @ r # zs" by simp_all
      from l Cons y have "key b < key r" by simp
      with False have xr: "key x < key r" by simp
      have "b # x # xs = (b # x # ys') @ r # zs" using xs by simp
      moreover have "\<forall>y \<in> set (b # x # ys'). key y < key r" using l Cons y xr by simp
      ultimately show ?thesis unfolding eq using g by blast
    qed
  qed
qed

lemma py_max_None [simp]: "py_max key xs = None \<longleftrightarrow> xs = []"
  by (simp add: py_max_def split: list.splits)

lemma py_max_first:
  assumes "py_max key xs = Some k"
  shows "\<exists>ys zs. xs = ys @ k # zs \<and> (\<forall>y \<in> set ys. key y < key k)
           \<and> (\<forall>z \<in> set zs. key z \<le> key k)"
proof -
  from assms obtain b rest where xs: "xs = b # rest" and k: "k = py_max_from key b rest"
    by (auto simp: py_max_def split: list.splits)
  from py_max_from_first[of b rest key] xs k show ?thesis by simp
qed

lemma py_max_sorted:
  assumes "sorted_wrt (<) xs" and "py_max key xs = Some (k::nat)"
  shows "k \<in> set xs \<and> (\<forall>j \<in> set xs. key j \<le> key k)
         \<and> (\<forall>j \<in> set xs. j < k \<longrightarrow> key j < key k)"
proof -
  from py_max_first[OF assms(2)] obtain ys zs where d: "xs = ys @ k # zs"
    and l: "\<forall>y \<in> set ys. key y < key k" and r: "\<forall>z \<in> set zs. key z \<le> key k" by blast
  from assms(1) d have "\<forall>z \<in> set zs. k < z"
    by (auto simp: sorted_wrt_append)
  with d l r show ?thesis by (auto simp: less_imp_le)
qed

lemma np_argmax_props:
  assumes "xs \<noteq> []"
  shows "\<exists>k. np_argmax xs = Inr k \<and> k < length xs \<and> (\<forall>j < length xs. xs ! j \<le> xs ! k)
           \<and> (\<forall>j < k. xs ! j < xs ! k) \<and> np_max xs = Inr (xs ! k)"
proof -
  from assms have "py_max (\<lambda>i. xs ! i) [0..<length xs] \<noteq> None" by simp
  then obtain k where k: "py_max (\<lambda>i. xs ! i) [0..<length xs] = Some k" by blast
  have s: "sorted_wrt (<) [0..<length xs]" by simp
  from py_max_sorted[OF s k] have p: "k < length xs" "\<forall>j < length xs. xs ! j \<le> xs ! k"
    "\<forall>j < k. xs ! j < xs ! k" by auto
  from assms obtain x rest where c: "xs = x # rest" by (cases xs) auto
  have "Max (set xs) = xs ! k"
  proof (rule Max_eqI)
    show "finite (set xs)" by simp
    show "\<And>y. y \<in> set xs \<Longrightarrow> y \<le> xs ! k" using p(2) by (auto simp: in_set_conv_nth)
    show "xs ! k \<in> set xs" using p(1) by simp
  qed
  moreover have "Max (set (x # rest)) = fold max rest x" by (rule Max.set_eq_fold)
  ultimately have "np_max xs = Inr (xs ! k)"
    by (simp add: np_max_def c del: set_simps)
  with k p show ?thesis by (simp add: np_argmax_def)
qed

lemma sum_list_map2_add:
  "length a = length b \<Longrightarrow> sum_list (map2 (+) a b) = sum_list a + sum_list (b::real list)"
  by (induction a b rule: list_induct2) simp_all

lemma blend_loop_same_length:
  "same_length (length acc) ps \<Longrightarrow>
     \<exists>wp. blend_loop w ps (acc, t) = Inr (wp, t + total_weight_of w ps)
       \<and> length wp = length acc
       \<and> sum_list wp = sum_list acc + (\<Sum>(model_id, proba)\<leftarrow>ps. weight_of w model_id * sum_list proba)"
proof (induction ps arbitrary: acc t)
  case Nil
  show ?case by (simp add: total_weight_of_def)
next
  case (Cons a ps)
  obtain model_id proba where a: "a = (model_id, proba)" by (cases a)
  let ?v = "map (\<lambda>p. p * weight_of w model_id) proba"
  let ?acc = "map2 (+) acc ?v"
  from Cons.prems a have len: "length proba = length acc" and rest: "same_length (length ?acc) ps"
    by (simp_all add: same_length_def)
  from Cons.IH[OF rest, of "t + weight_of w model_id"] obtain wp where
    wp: "blend_loop w ps (?acc, t + weight_of w model_id)
           = Inr (wp, t + weight_of w model_id + total_weight_of w ps)"
    "length wp = length ?acc"
    "sum_list wp = sum_list ?acc + (\<Sum>(model_id, proba)\<leftarrow>ps. weight_of w model_id * sum_list proba)"
    by blast
  have i: "np_iadd acc ?v = Inr ?acc" using len by (simp add: np_iadd_def)
  have s: "sum_list ?acc = sum_list acc + weight_of w model_id * sum_list proba"
    using len by (simp add: sum_list_map2_add sum_list_mult_const mult.commute)
  from wp i s len show ?case
    by (simp add: a Let_def total_weight_of_def add.assoc)
qed

lemma all_classes_same_length:
  assumes "ps \<noteq> []" and "same_length n ps"
  shows "all_classes ps = [0..<n]"
proof -
  have "set (concat (map (\<lambda>(model_id, proba). [0..<length proba]) ps)) = {0..<n}"
    using assms by (cases ps) (auto simp: same_length_def list_all_iff)
  then have "sort (remdups (concat (map (\<lambda>(model_id, proba). [0..<length proba]) ps)))
               = sorted_list_of_set {0..<n}"
    by (simp add: sorted_list_of_set_sort_remdups[symmetric])
  then show ?thesis by (simp add: all_classes_def)
qed


lemma blend_loop_pointwise:
  "same_length (length acc) ps \<Longrightarrow> blend_loop w ps (acc, t) = Inr (wp, t') \<Longrightarrow>
     \<forall>j < length acc.
       wp ! j = acc ! j + (\<Sum>(model_id, proba)\<leftarrow>ps. weight_of w model_id * proba ! j)"
proof (induction ps arbitrary: acc t)
  case Nil
  then show ?case by simp
next
  case (Cons a ps)
  obtain model_id proba where a: "a = (model_id, proba)" by (cases a)
  let ?v = "map (\<lambda>p. p * weight_of w model_id) proba"
  let ?acc = "map2 (+) acc ?v"
  from Cons.prems(1) a have len: "length proba = length acc"
    and rest: "same_length (length ?acc) ps"
    by (simp_all add: same_length_def)
  have i: "np_iadd acc ?v = Inr ?acc" using len by (simp add: np_iadd_def)
  with Cons.prems(2) a have "blend_loop w ps (?acc, t + weight_of w model_id) = Inr (wp, t')"
    by (simp add: Let_def)
  from Cons.IH[OF rest this] len show ?case
    by (simp add: a mult.commute add.assoc)
qed

lemma weighted_sum_unit:
  "list_all (\<lambda>(model_id, proba). sum_list proba = 1) ps \<Longrightarrow>
     (\<Sum>(model_id, proba)\<leftarrow>ps. weight_of w model_id * sum_list proba) = total_weight_of w ps"
  by (induction ps) (auto simp: total_weight_of_def)


subsection \<open>Normalisation of the blended vector\<close>

text \<open>
  For vectors of one common length the code normalises as intended: if at least one
  member contributed a vector, every contributed vector has length \<open>n\<close> and sums to 1,
  and the weights of the contributing members sum to a strictly positive \<open>W\<close>, then
  blending succeeds and the normalised vector has length \<open>n\<close> and sums to 1 (in exact
  arithmetic), whatever \<open>W\<close> is.
\<close>

lemma blended_probs_sum_one:
  assumes "probabilities \<noteq> []"
    and "same_length n probabilities"
    and "list_all (\<lambda>(model_id, proba). sum_list proba = 1) probabilities"
    and "0 < total_weight_of weights probabilities"
  shows "\<exists>v. blended_probs weights probabilities = Inr v \<and> length v = n \<and> sum_list v = 1"
proof -
  let ?W = "total_weight_of weights probabilities"
  have ac: "all_classes probabilities = [0..<n]"
    using assms(1,2) by (rule all_classes_same_length)
  from assms(2) have "same_length (length (replicate n (0::real))) probabilities" by simp
  from blend_loop_same_length[OF this, of weights 0] obtain wp where
    wp: "blend_loop weights probabilities (replicate n 0, 0) = Inr (wp, ?W)"
    and len: "length wp = n"
    and sm: "sum_list wp = (\<Sum>(model_id, proba)\<leftarrow>probabilities.
                              weight_of weights model_id * sum_list proba)"
    by (auto simp: sum_list_replicate)
  from sm assms(3) have s: "sum_list wp = ?W" by (simp add: weighted_sum_unit)
  have "sum_list (map (\<lambda>p. p / ?W) wp) = sum_list wp / ?W"
    by (simp add: divide_inverse sum_list_mult_const)
  with s assms(4) have "sum_list (map (\<lambda>p. p / ?W) wp) = 1" by simp
  with wp len assms(4) show ?thesis
    by (simp add: blended_probs_def ac)
qed

text \<open>For instance, when the champion gave no vector and the two challengers weigh 0.15
  each, \<open>W = 0.3\<close>.\<close>

lemma blended_probs_sum_one_example:
  "challenger_probabilities \<noteq> [] \<and> same_length 3 challenger_probabilities
   \<and> list_all (\<lambda>(model_id, proba). sum_list proba = 1) challenger_probabilities
   \<and> total_weight_of scenario_weights challenger_probabilities = 0.3
   \<and> (\<exists>v. blended_probs scenario_weights challenger_probabilities = Inr v
          \<and> length v = 3 \<and> sum_list v = 1)"
proof -
  have h1: "challenger_probabilities \<noteq> []" by (simp add: blend_defs)
  have h2: "same_length 3 challenger_probabilities" by (simp add: blend_defs)
  have h3: "list_all (\<lambda>(model_id, proba). sum_list proba = 1) challenger_probabilities"
    by (simp add: blend_defs)
  have w: "total_weight_of scenario_weights challenger_probabilities = 0.3"
    by (simp add: blend_defs)
  then have h4: "0 < total_weight_of scenario_weights challenger_probabilities" by simp
  from blended_probs_sum_one[OF h1 h2 h3 h4] h1 h2 h3 w show ?thesis by simp
qed

text \<open>
  Claim C9 says that whenever the contributed vectors each sum to 1 and their weights
  sum to a positive \<open>W\<close>, the blended vector sums to 1. The code does not do that for
  vectors of different lengths, because of the unpadded addition: a member whose vector
  has one element is broadcast by numpy to every class. Below both vectors sum to 1 and
  \<open>W = 1\<close>, and the blended vector sums to 1.3.
\<close>

theorem broadcast_breaks_normalisation:
  "list_all (\<lambda>(model_id, proba). sum_list proba = (1::real)) [(''a'', [0.5, 0.5]), (''b'', [1])]
   \<and> total_weight_of [''a'' \<mapsto> 0.7, ''b'' \<mapsto> 0.3] [(''a'', [0.5, 0.5]), (''b'', [1])] = 1
   \<and> blended_probs [''a'' \<mapsto> 0.7, ''b'' \<mapsto> 0.3] [(''a'', [0.5, 0.5]), (''b'', [1])]
       = Inr [0.65, 0.65]
   \<and> sum_list [0.65, 0.65 :: real] \<noteq> 1"
  by (simp add: blend_defs)

subsection \<open>Vectors of different lengths\<close>

text \<open>
  Claim C7 says that members whose vectors differ in length are blended, a class that a
  vector lacks counting as probability 0. The code collects the classes of all vectors
  but then adds each vector to the accumulator as it is. A three-class and a two-class
  vector make the addition raise, so no prediction is returned; a one-element vector is
  broadcast, so the member's only probability is added to every class instead of 0 to
  the classes it lacks (with 0 there the weighted sums would be 0.65 and 0.35).
\<close>

theorem mixed_lengths_not_padded:
  "weighted_probability_ensemble [''a'' \<mapsto> 0.7, ''b'' \<mapsto> 0.3]
       [(''a'', [0.2, 0.5, 0.3]), (''b'', [0.6, 0.4])]
     = Inl (BroadcastError 3 2)
   \<and> all_classes [(''a'', [0.2, 0.5, 0.3]), (''b'', [0.6, 0.4])] = [0, 1, 2]
   \<and> blend_loop [''a'' \<mapsto> 0.7, ''b'' \<mapsto> 0.3] [(''a'', [0.5, 0.5]), (''b'', [1])] ([0, 0], 0)
     = Inr ([0.65, 0.65], 1)"
  by (simp add: blend_defs)

subsection \<open>Zero total weight\<close>

text \<open>
  Claim C4, as the code has it: when at least one member contributed a vector, the
  vectors share one positive length \<open>n\<close>, and the weights of the contributing members do
  not sum to a positive number, blending does not fail. Normalisation is skipped: the
  accumulated vector \<open>wp\<close> holds for each class the weighted sum of the members'
  probabilities, the prediction is the first class \<open>k\<close> where \<open>wp\<close> is largest and the
  confidence is \<open>wp ! k\<close>. When every contributing weight is 0 this is class 0 with
  confidence 0.
\<close>

theorem zero_weight_blend:
  assumes "probabilities \<noteq> []"
    and "same_length n probabilities" and "0 < n"
    and "\<not> 0 < total_weight_of weights probabilities"
  shows "\<exists>wp k. blend_loop weights probabilities (replicate n 0, 0)
                  = Inr (wp, total_weight_of weights probabilities)
           \<and> length wp = n \<and> k < n
           \<and> (\<forall>j < n. wp ! j = (\<Sum>(model_id, proba)\<leftarrow>probabilities.
                                    weight_of weights model_id * proba ! j))
           \<and> (\<forall>j < n. wp ! j \<le> wp ! k) \<and> (\<forall>j < k. wp ! j < wp ! k)
           \<and> weighted_probability_ensemble weights probabilities
               = Inr \<lparr> prediction = int k, confidence = wp ! k \<rparr>
           \<and> (list_all (\<lambda>(model_id, proba). weight_of weights model_id = 0) probabilities
                \<longrightarrow> k = 0 \<and> wp ! k = 0)"
proof -
  let ?W = "total_weight_of weights probabilities"
  have ac: "all_classes probabilities = [0..<n]"
    using assms(1,2) by (rule all_classes_same_length)
  from assms(2) have sl: "same_length (length (replicate n (0::real))) probabilities" by simp
  from blend_loop_same_length[OF sl, of weights 0] obtain wp where
    wp: "blend_loop weights probabilities (replicate n 0, 0) = Inr (wp, ?W)"
    and len: "length wp = n"
    by auto
  from blend_loop_pointwise[OF sl wp] have pw:
    "\<forall>j < n. wp ! j = (\<Sum>(model_id, proba)\<leftarrow>probabilities.
                          weight_of weights model_id * proba ! j)"
    by simp
  from len assms(3) have "wp \<noteq> []" by auto
  from np_argmax_props[OF this] len obtain k where
    k: "np_argmax wp = Inr k" "k < n" "\<forall>j < n. wp ! j \<le> wp ! k" "\<forall>j < k. wp ! j < wp ! k"
       "np_max wp = Inr (wp ! k)"
    by auto
  have bp: "blended_probs weights probabilities = Inr wp"
    using wp assms(4) by (simp add: blended_probs_def ac)
  have res: "weighted_probability_ensemble weights probabilities
               = Inr \<lparr> prediction = int k, confidence = wp ! k \<rparr>"
    using bp k(1,2,5) by (simp add: weighted_probability_ensemble_def ac)
  have zero: "k = 0 \<and> wp ! k = 0"
    if z: "list_all (\<lambda>(model_id, proba). weight_of weights model_id = 0) probabilities"
  proof -
    have "(\<Sum>(model_id, proba)\<leftarrow>probabilities. weight_of weights model_id * proba ! j) = 0"
      for j using z by (induction probabilities) auto
    with pw have all0: "\<forall>j < n. wp ! j = 0" by simp
    have "k = 0"
    proof (rule ccontr)
      assume "k \<noteq> 0"
      then have "0 < k" by simp
      with k(4) have "wp ! 0 < wp ! k" by simp
      with all0 k(2) \<open>0 < k\<close> show False by simp
    qed
    with all0 assms(3) show ?thesis by simp
  qed
  from wp len k(2,3,4) pw res zero show ?thesis by blast
qed

text \<open>The theorem at work: two members without any weight.\<close>

theorem zero_weight_blend_witness:
  "challenger_probabilities \<noteq> [] \<and> same_length 3 challenger_probabilities
   \<and> \<not> 0 < total_weight_of Map.empty challenger_probabilities
   \<and> list_all (\<lambda>(model_id, proba). weight_of Map.empty model_id = 0) challenger_probabilities
   \<and> weighted_probability_ensemble Map.empty challenger_probabilities
       = Inr \<lparr> prediction = 0, confidence = 0 \<rparr>"
proof -
  have h1: "challenger_probabilities \<noteq> []" by (simp add: blend_defs)
  have h2: "same_length 3 challenger_probabilities" by (simp add: blend_defs)
  have h3: "(0::nat) < 3" by simp
  have h4: "\<not> 0 < total_weight_of Map.empty challenger_probabilities" by (simp add: blend_defs)
  have z: "list_all (\<lambda>(model_id, proba). weight_of Map.empty model_id = 0) challenger_probabilities"
    by (simp add: blend_defs)
  from zero_weight_blend[OF h1 h2 h3 h4] z obtain wp k where
    "weighted_probability_ensemble Map.empty challenger_probabilities
       = Inr \<lparr> prediction = int k, confidence = wp ! k \<rparr>" "k = 0" "wp ! k = 0"
    by blast
  with h1 h2 h4 z show ?thesis by simp
qed

text \<open>Claim C4 as the spec words it expects a \<open>ZeroWeightError\<close>. With two members that
  have no weight at all the code returns a prediction.\<close>

theorem zero_weight_returns_counterexample:
  "total_weight_of Map.empty [(''a'', [0.2, 0.8]), (''b'', [0.6, 0.4])] = 0
   \<and> weighted_probability_ensemble Map.empty [(''a'', [0.2, 0.8]), (''b'', [0.6, 0.4])]
       = Inr \<lparr> prediction = 0, confidence = 0 \<rparr>"
  by (simp add: blend_defs)

subsection \<open>Promotion after a demotion\<close>

lemmas eval2 = eval_defs sample_entry_def loaded_store_def scenario_ledger_def tie_ledger_def
  is_active_def is_candidate_def

text \<open>The positions in \<open>candidate_indices\<close> are those of the list \<open>candidates\<close> that
  \<open>_promote_best_candidate\<close> builds.\<close>

lemma candidate_indices_lists:
  "map ((!) ms) (candidate_indices mt ms)
     = filter (\<lambda>c. status c = ''candidate'') (get_models_by_type mt ms)"
proof -
  let ?P = "\<lambda>m. model_type m = Some mt \<and> status m = ''candidate''"
  have "filter ?P ms = filter ?P (map ((!) ms) [0..<length ms])" by (simp add: map_nth)
  also have "\<dots> = map ((!) ms) (filter (?P \<circ> (!) ms) [0..<length ms])"
    by (rule filter_map)
  finally have "map ((!) ms) (candidate_indices mt ms) = filter ?P ms"
    by (simp add: candidate_indices_def comp_def)
  then show ?thesis by (simp add: get_models_by_type_def conj_commute)
qed

lemma candidate_indices_iff:
  "j \<in> set (candidate_indices mt ms) \<longleftrightarrow> j < length ms \<and> is_candidate mt (ms ! j)"
  by (auto simp: candidate_indices_def is_candidate_def)

lemma candidate_indices_sorted: "sorted_wrt (<) (candidate_indices mt ms)"
  unfolding candidate_indices_def by (rule sorted_wrt_filter) simp

lemma promote_none:
  "\<forall>j < length ms. \<not> is_candidate mt (ms ! j) \<Longrightarrow> promote_best_candidate mt now ms = ms"
proof -
  assume "\<forall>j < length ms. \<not> is_candidate mt (ms ! j)"
  then have "candidate_indices mt ms = []"
    by (auto simp: candidate_indices_def is_candidate_def filter_empty_conv)
  then show ?thesis by (simp add: promote_best_candidate_def py_max_def)
qed

lemma promote_some:
  assumes "j0 < length ms" and "is_candidate mt (ms ! j0)"
  shows "\<exists>b < length ms. is_candidate mt (ms ! b)
           \<and> (\<forall>j < length ms. is_candidate mt (ms ! j) \<longrightarrow> accuracy (ms ! j) \<le> accuracy (ms ! b))
           \<and> (\<forall>j < b. is_candidate mt (ms ! j) \<longrightarrow> accuracy (ms ! j) < accuracy (ms ! b))
           \<and> promote_best_candidate mt now ms
               = ms[b := (ms ! b)\<lparr>status := ''active'', promoted_at := Some now\<rparr>]"
proof -
  from assms have "candidate_indices mt ms \<noteq> []"
    using candidate_indices_iff[of j0 mt ms] by auto
  then have "py_max (\<lambda>i. accuracy (ms ! i)) (candidate_indices mt ms) \<noteq> None"
    by simp
  then obtain b where b: "py_max (\<lambda>i. accuracy (ms ! i)) (candidate_indices mt ms) = Some b"
    by blast
  from py_max_sorted[OF candidate_indices_sorted b]
  have p: "b \<in> set (candidate_indices mt ms)"
    "\<forall>j \<in> set (candidate_indices mt ms). accuracy (ms ! j) \<le> accuracy (ms ! b)"
    "\<forall>j \<in> set (candidate_indices mt ms). j < b \<longrightarrow> accuracy (ms ! j) < accuracy (ms ! b)"
    by auto
  from p(1) have bl: "b < length ms" and bc: "is_candidate mt (ms ! b)"
    by (simp_all add: candidate_indices_iff)
  have r: "promote_best_candidate mt now ms
             = ms[b := (ms ! b)\<lparr>status := ''active'', promoted_at := Some now\<rparr>]"
    using b by (simp add: promote_best_candidate_def)
  from bl bc p(2,3) r show ?thesis
    by (auto simp: candidate_indices_iff)
qed

lemma scenario_models: "models (registry (loaded_store scenario_ledger)) = scenario_ledger"
  by (simp add: loaded_store_def Let_def)

text \<open>
  Claim C3, as the code has it, for an entry that is archived. Let the entry found for
  \<open>model_id\<close> be the only active entry of its type \<open>mt\<close> in the ledger \<open>ms\<close>, and let
  \<open>update_model_status\<close> move it to \<open>archived\<close>. If \<open>ms\<close> has no candidate of type \<open>mt\<close>,
  the stored ledger is \<open>ms\<close> with the entry archived, and no entry of that type is
  active. Otherwise exactly one entry of the type is active afterwards: the candidate
  with the highest accuracy (0 when the metric is absent), and among candidates of
  equal accuracy the one that comes first in the ledger; nothing else changes.
\<close>

theorem archiving_promotes_best_candidate:
  assumes idx: "get_model_index model_id (models (registry s)) = Some i"
    and act: "is_active mt (models (registry s) ! i)"
    and only: "\<forall>j < length (models (registry s)). j \<noteq> i \<longrightarrow> \<not> is_active mt (models (registry s) ! j)"
    and ms: "ms = models (registry s)"
    and tgt: "archived = (ms ! i)\<lparr>status := ''archived'', updated_at := Some t1\<rparr>"
    and res: "ms' = models (registry_file (snd (update_model_status model_id ''archived'' t1 t2 t3 s)))"
  shows "fst (update_model_status model_id ''archived'' t1 t2 t3 s) = Inr True
    \<and> ((\<forall>j < length ms. \<not> is_candidate mt (ms ! j)) \<longrightarrow>
          ms' = ms[i := archived] \<and> (\<forall>j < length ms'. \<not> is_active mt (ms' ! j)))
    \<and> ((\<exists>j < length ms. is_candidate mt (ms ! j)) \<longrightarrow>
          (\<exists>b < length ms. b \<noteq> i \<and> is_candidate mt (ms ! b)
             \<and> (\<forall>j < length ms. is_candidate mt (ms ! j) \<longrightarrow> accuracy (ms ! j) \<le> accuracy (ms ! b))
             \<and> (\<forall>j < b. is_candidate mt (ms ! j) \<longrightarrow> accuracy (ms ! j) < accuracy (ms ! b))
             \<and> ms' = ms[i := archived,
                         b := (ms ! b)\<lparr>status := ''active'', promoted_at := Some t2\<rparr>]
             \<and> is_active mt (ms' ! b)
             \<and> (\<forall>j < length ms'. j \<noteq> b \<longrightarrow> \<not> is_active mt (ms' ! j))))"
proof -
  define ms1 where "ms1 = ms[i := archived]"
  from get_model_index_first[OF idx] ms have il: "i < length ms" by simp
  from act ms have mt: "model_type (ms ! i) = Some mt" and st: "status (ms ! i) = ''active''"
    by (simp_all add: is_active_def)
  have upd: "update_model_status model_id ''archived'' t1 t2 t3 s
               = (Inr True, save_registry t3 (set_models (promote_best_candidate mt t2 ms1) s))"
    using idx mt st ms tgt
    by (simp add: update_model_status_def Let_def valid_statuses_def ms1_def)
  then have r: "ms' = promote_best_candidate mt t2 ms1" using res by simp
  have len1: "length ms1 = length ms" by (simp add: ms1_def)
  have same: "ms1 ! j = ms ! j" if "j \<noteq> i" for j using that by (simp add: ms1_def)
  have ci: "\<not> is_candidate mt (ms ! i)" using st by (simp add: is_candidate_def)
  have ci1: "\<not> is_candidate mt (ms1 ! i)" using il tgt by (simp add: ms1_def is_candidate_def)
  have cand: "is_candidate mt (ms1 ! j) \<longleftrightarrow> is_candidate mt (ms ! j)" for j
    using same[of j] ci ci1 by (cases "j = i") simp_all
  have acc: "accuracy (ms1 ! j) = accuracy (ms ! j)" if "j < length ms" for j
    using same[of j] il tgt by (cases "j = i") (simp_all add: ms1_def accuracy_def)
  have no1: "\<forall>j < length ms1. \<not> is_active mt (ms1 ! j)"
  proof (intro allI impI)
    fix j assume j: "j < length ms1"
    show "\<not> is_active mt (ms1 ! j)"
    proof (cases "j = i")
      case True
      with il tgt show ?thesis by (simp add: ms1_def is_active_def)
    next
      case False
      with only j len1 ms same[of j] show ?thesis by simp
    qed
  qed
  have A: "ms' = ms[i := archived] \<and> (\<forall>j < length ms'. \<not> is_active mt (ms' ! j))"
    if n: "\<forall>j < length ms. \<not> is_candidate mt (ms ! j)"
  proof -
    from n cand len1 have "\<forall>j < length ms1. \<not> is_candidate mt (ms1 ! j)" by simp
    from promote_none[OF this] r no1 show ?thesis by (simp add: ms1_def)
  qed
  have B: "\<exists>b < length ms. b \<noteq> i \<and> is_candidate mt (ms ! b)
             \<and> (\<forall>j < length ms. is_candidate mt (ms ! j) \<longrightarrow> accuracy (ms ! j) \<le> accuracy (ms ! b))
             \<and> (\<forall>j < b. is_candidate mt (ms ! j) \<longrightarrow> accuracy (ms ! j) < accuracy (ms ! b))
             \<and> ms' = ms[i := archived,
                         b := (ms ! b)\<lparr>status := ''active'', promoted_at := Some t2\<rparr>]
             \<and> is_active mt (ms' ! b)
             \<and> (\<forall>j < length ms'. j \<noteq> b \<longrightarrow> \<not> is_active mt (ms' ! j))"
    if e: "\<exists>j < length ms. is_candidate mt (ms ! j)"
  proof -
    from e obtain j0 where "j0 < length ms1" "is_candidate mt (ms1 ! j0)"
      using cand len1 by auto
    from promote_some[OF this, of t2] obtain b where b: "b < length ms1"
      "is_candidate mt (ms1 ! b)"
      "\<forall>j < length ms1. is_candidate mt (ms1 ! j) \<longrightarrow> accuracy (ms1 ! j) \<le> accuracy (ms1 ! b)"
      "\<forall>j < b. is_candidate mt (ms1 ! j) \<longrightarrow> accuracy (ms1 ! j) < accuracy (ms1 ! b)"
      "promote_best_candidate mt t2 ms1
         = ms1[b := (ms1 ! b)\<lparr>status := ''active'', promoted_at := Some t2\<rparr>]"
      by blast
    from b(2) ci1 have bi: "b \<noteq> i" by auto
    from b(1) len1 have bl: "b < length ms" by simp
    from b(2) cand have bc: "is_candidate mt (ms ! b)" by simp
    have mx: "\<forall>j < length ms. is_candidate mt (ms ! j) \<longrightarrow> accuracy (ms ! j) \<le> accuracy (ms ! b)"
      using b(3) cand acc bl len1 by simp
    have fst: "\<forall>j < b. is_candidate mt (ms ! j) \<longrightarrow> accuracy (ms ! j) < accuracy (ms ! b)"
    proof (intro allI impI)
      fix j assume j: "j < b" and c: "is_candidate mt (ms ! j)"
      from j bl have jl: "j < length ms" by simp
      from b(4) j c cand have "accuracy (ms1 ! j) < accuracy (ms1 ! b)" by simp
      with acc[OF jl] acc[OF bl] show "accuracy (ms ! j) < accuracy (ms ! b)" by simp
    qed
    from b(5) r same[OF bi]
    have e': "ms' = ms[i := archived, b := (ms ! b)\<lparr>status := ''active'', promoted_at := Some t2\<rparr>]"
      by (simp add: ms1_def)
    have ab: "is_active mt (ms' ! b)"
      using e' bl bc by (simp add: is_active_def is_candidate_def)
    have others: "\<forall>j < length ms'. j \<noteq> b \<longrightarrow> \<not> is_active mt (ms' ! j)"
    proof (intro allI impI)
      fix j assume j: "j < length ms'" and jb: "j \<noteq> b"
      from b(5) r have "ms' ! j = ms1 ! j" using jb by simp
      moreover from j b(5) r have "j < length ms1" by simp
      ultimately show "\<not> is_active mt (ms' ! j)" using no1 by simp
    qed
    from bl bi bc mx fst e' ab others show ?thesis by blast
  qed
  from upd have "fst (update_model_status model_id ''archived'' t1 t2 t3 s) = Inr True" by simp
  with A B show ?thesis by blast
qed

text \<open>The theorem at work on the spec's scenario: archiving the champion promotes the
  candidate with accuracy 0.89.\<close>

theorem archiving_promotes_best_candidate_witness:
  "get_model_index ''champion'' (models (registry (loaded_store scenario_ledger))) = Some 0
   \<and> is_active ''full_time'' (models (registry (loaded_store scenario_ledger)) ! 0)
   \<and> map status (models (registry (loaded_store scenario_ledger)))
       = [''active'', ''candidate'', ''candidate'']
   \<and> map (\<lambda>m. (id_key m, status m))
        (models (registry_file (snd (update_model_status ''champion'' ''archived''
           ''2024-02-01T00:00:00'' ''2024-02-02T00:00:00'' ''2024-02-03T00:00:00''
           (loaded_store scenario_ledger)))))
     = [(''champion'', ''archived''), (''challenger-2'', ''candidate''),
        (''challenger-1'', ''active'')]"
proof -
  let ?s = "loaded_store scenario_ledger"
  define ms where "ms = models (registry ?s)"
  define ms' where "ms' = models (registry_file (snd (update_model_status ''champion'' ''archived''
           ''2024-02-01T00:00:00'' ''2024-02-02T00:00:00'' ''2024-02-03T00:00:00'' ?s)))"
  have m: "ms = scenario_ledger" by (simp add: ms_def scenario_models)
  have h1: "get_model_index ''champion'' (models (registry ?s)) = Some 0"
    by (simp add: scenario_models) (simp add: scenario_ledger_def sample_entry_def)
  have h2: "is_active ''full_time'' (models (registry ?s) ! 0)"
    by (simp add: scenario_models) (simp add: scenario_ledger_def sample_entry_def is_active_def)
  have h3: "\<forall>j < length (models (registry ?s)).
              j \<noteq> 0 \<longrightarrow> \<not> is_active ''full_time'' (models (registry ?s) ! j)"
    unfolding scenario_models
  proof (intro allI impI)
    fix j assume "j < length scenario_ledger" "j \<noteq> 0"
    then have "j = 1 \<or> j = 2" by (auto simp: scenario_ledger_def)
    then show "\<not> is_active ''full_time'' (scenario_ledger ! j)"
      by (auto simp: scenario_ledger_def sample_entry_def is_active_def)
  qed
  have l: "length ms = 3" by (simp add: m scenario_ledger_def)
  have c0: "\<not> is_candidate ''full_time'' (ms ! 0)"
    and c2: "is_candidate ''full_time'' (ms ! 2)"
    and a12: "\<not> accuracy (ms ! 2) \<le> accuracy (ms ! 1)"
    by (simp_all add: m scenario_ledger_def sample_entry_def is_candidate_def accuracy_def)
  have c: "\<exists>j < length ms. is_candidate ''full_time'' (ms ! j)"
    using c2 l by (intro exI[of _ 2]) simp
  from archiving_promotes_best_candidate[OF h1 h2 h3 ms_def refl ms'_def] c
  obtain b where b: "b < length ms" "is_candidate ''full_time'' (ms ! b)"
    "\<forall>j < length ms. is_candidate ''full_time'' (ms ! j) \<longrightarrow> accuracy (ms ! j) \<le> accuracy (ms ! b)"
    "ms' = ms[0 := (ms ! 0)\<lparr>status := ''archived'', updated_at := Some ''2024-02-01T00:00:00''\<rparr>,
              b := (ms ! b)\<lparr>status := ''active'', promoted_at := Some ''2024-02-02T00:00:00''\<rparr>]"
    by blast
  have "b = 2"
  proof -
    from b(1) l have "b = 0 \<or> b = 1 \<or> b = 2" by auto
    moreover have "b \<noteq> 0"
    proof
      assume "b = 0"
      with b(2) c0 show False by simp
    qed
    moreover have "b \<noteq> 1"
    proof
      assume b1: "b = 1"
      from l have "2 < length ms" by simp
      with b(3) c2 have "accuracy (ms ! 2) \<le> accuracy (ms ! b)" by blast
      with a12 b1 show False by simp
    qed
    ultimately show ?thesis by simp
  qed
  with b(4) have "map (\<lambda>m. (id_key m, status m)) ms'
     = [(''champion'', ''archived''), (''challenger-2'', ''candidate''),
        (''challenger-1'', ''active'')]"
    by (simp add: m scenario_ledger_def sample_entry_def)
  moreover have "map status (models (registry ?s)) = [''active'', ''candidate'', ''candidate'']"
    by (simp add: scenario_models) (simp add: scenario_ledger_def sample_entry_def)
  ultimately show ?thesis using h1 h2 unfolding ms'_def by simp
qed

text \<open>Claim C3 as the spec words it breaks ties in favour of the most recent
  \<open>created_at\<close>. With two candidates of accuracy 0.80 the code promotes the older one,
  which stands first in the ledger.\<close>

theorem promotion_tie_counterexample:
  "map (\<lambda>m. (id_key m, status m, accuracy m, created_at m)) tie_ledger
     = [(''champion'', ''active'', 0.85, ''2024-01-01T00:00:00''),
        (''older'', ''candidate'', 0.80, ''2024-01-02T00:00:00''),
        (''newer'', ''candidate'', 0.80, ''2024-01-03T00:00:00'')]
   \<and> map (\<lambda>m. (id_key m, status m))
        (models (registry_file (snd (update_model_status ''champion'' ''archived''
           ''2024-02-01T00:00:00'' ''2024-02-01T00:00:00'' ''2024-02-01T00:00:00''
           (loaded_store tie_ledger)))))
     = [(''champion'', ''archived''), (''older'', ''active''), (''newer'', ''candidate'')]"
  by (simp add: eval2)

subsection \<open>At most one active entry per type\<close>

lemmas eval3 = eval2 type_key_def py_sorted_rev_def py_slice_to_def models_by_type_def
  cleanup_old_models_def import_registry_def active_count_def two_active_def archive_ledger_def

lemma active_count_append [simp]:
  "active_count mt (xs @ ys) = active_count mt xs + active_count mt ys"
  by (simp add: active_count_def)

lemma active_count_deactivate_same: "active_count mt (deactivate_other_models mt xs) = 0"
  by (simp add: active_count_def deactivate_other_models_def is_active_def filter_empty_conv)

lemma active_count_deactivate_other:
  "mt \<noteq> mt' \<Longrightarrow> active_count mt (deactivate_other_models mt' xs) = active_count mt xs"
  by (induction xs) (simp_all add: active_count_def deactivate_other_models_def is_active_def)

lemma models_set_models [simp]: "models (registry (set_models ms s)) = ms"
  by (simp add: set_models_def)

lemma active_count_update:
  "i < length xs \<Longrightarrow>
     active_count mt (xs[i := y]) + (if is_active mt (xs ! i) then 1 else 0)
       = active_count mt xs + (if is_active mt y then 1 else 0)"
proof (induction xs arbitrary: i)
  case Nil
  then show ?case by simp
next
  case (Cons x xs)
  show ?case
  proof (cases i)
    case 0
    then show ?thesis by (simp add: active_count_def)
  next
    case (Suc k)
    with Cons.prems have "k < length xs" by simp
    from Cons.IH[OF this] Suc show ?thesis by (simp add: active_count_def)
  qed
qed

lemma active_count_remove1: "active_count mt (remove1 x xs) \<le> active_count mt xs"
  by (induction xs) (auto simp: active_count_def)

lemma remove_loop_shrinks:
  "remove_loop rs (ms, n) = (e, ms', n') \<Longrightarrow>
     active_count mt ms' \<le> active_count mt ms \<and> set ms' \<subseteq> set ms"
proof (induction rs arbitrary: ms n)
  case Nil
  then show ?case by simp
next
  case (Cons r rs)
  show ?case
  proof (cases "r \<in> set ms")
    case True
    with Cons.prems have "remove_loop rs (remove1 r ms, Suc n) = (e, ms', n')" by simp
    from Cons.IH[OF this] have "active_count mt ms' \<le> active_count mt (remove1 r ms)"
      and "set ms' \<subseteq> set (remove1 r ms)" by simp_all
    moreover have "active_count mt (remove1 r ms) \<le> active_count mt ms"
      by (rule active_count_remove1)
    moreover have "set (remove1 r ms) \<subseteq> set ms" by (rule set_remove1_subset)
    ultimately show ?thesis by auto
  next
    case False
    with Cons.prems show ?thesis by simp
  qed
qed

lemma type_loop_shrinks:
  "type_loop k gs (ms, n) = (e, ms', n') \<Longrightarrow>
     active_count mt ms' \<le> active_count mt ms \<and> set ms' \<subseteq> set ms"
proof (induction gs arbitrary: ms n)
  case Nil
  then show ?case by simp
next
  case (Cons g gs)
  obtain t type_models where g: "g = (t, type_models)" by (cases g)
  define rm where "rm = filter (\<lambda>m. m \<notin> set
        (filter (\<lambda>m. status m \<in> set [''active'', ''candidate'']) (py_sorted_rev created_at type_models)
         @ py_slice_to k (filter (\<lambda>m. status m = ''archived'') (py_sorted_rev created_at type_models))))
      (py_sorted_rev created_at type_models)"
  obtain e1 ms1 n1 where r: "remove_loop rm (ms, n) = (e1, ms1, n1)"
    by (cases "remove_loop rm (ms, n)") auto
  from remove_loop_shrinks[OF r] have s1: "active_count mt ms1 \<le> active_count mt ms"
    "set ms1 \<subseteq> set ms" by simp_all
  show ?case
  proof (cases e1)
    case None
    with Cons.prems g r have "type_loop k gs (ms1, n1) = (e, ms', n')"
      by (simp add: Let_def rm_def)
    from Cons.IH[OF this] s1 show ?thesis by auto
  next
    case (Some err)
    with Cons.prems g r have "ms' = ms1" by (simp add: Let_def rm_def)
    with s1 show ?thesis by simp
  qed
qed

lemma cleanup_shrinks:
  "active_count mt (models (registry (snd (cleanup_old_models k t s))))
     \<le> active_count mt (models (registry s))
   \<and> set (models (registry (snd (cleanup_old_models k t s)))) \<subseteq> set (models (registry s))"
proof -
  obtain e ms' n' where r:
    "type_loop k (models_by_type (models (registry s))) (models (registry s), 0) = (e, ms', n')"
    by (cases "type_loop k (models_by_type (models (registry s))) (models (registry s), 0)") auto
  have m: "models (registry (snd (cleanup_old_models k t s))) = ms'"
    using r by (cases e) (simp_all add: cleanup_old_models_def)
  from type_loop_shrinks[OF r] m show ?thesis by simp
qed


lemma has_types_deactivate: "has_types (deactivate_other_models mt xs) = has_types xs"
  by (induction xs) (simp_all add: has_types_def deactivate_other_models_def)

lemma has_types_update:
  "has_types xs \<Longrightarrow> model_type y \<noteq> None \<Longrightarrow> has_types (xs[i := y])"
  unfolding has_types_def list_all_iff using set_update_subset_insert[of xs i y] by auto

lemma has_types_promote: "has_types xs \<Longrightarrow> has_types (promote_best_candidate mt now xs)"
proof (cases "\<exists>j < length xs. is_candidate mt (xs ! j)")
  case True
  assume h: "has_types xs"
  from True obtain j0 where "j0 < length xs" "is_candidate mt (xs ! j0)" by blast
  from promote_some[OF this, of now] obtain b where b: "b < length xs" "is_candidate mt (xs ! b)"
    "promote_best_candidate mt now xs
       = xs[b := (xs ! b)\<lparr>status := ''active'', promoted_at := Some now\<rparr>]" by blast
  from b(2) have "model_type ((xs ! b)\<lparr>status := ''active'', promoted_at := Some now\<rparr>) \<noteq> None"
    by (simp add: is_candidate_def)
  from has_types_update[OF h this] b(3) show ?thesis by simp
next
  case False
  assume h: "has_types xs"
  from False have "\<forall>j < length xs. \<not> is_candidate mt (xs ! j)" by blast
  from promote_none[OF this] h show ?thesis by simp
qed

lemma active_count_promote:
  "active_count T (promote_best_candidate mt now xs)
     \<le> active_count T xs + (if T = mt then 1 else 0)"
proof (cases "\<exists>j < length xs. is_candidate mt (xs ! j)")
  case True
  then obtain j0 where "j0 < length xs" "is_candidate mt (xs ! j0)" by blast
  from promote_some[OF this, of now] obtain b where b: "b < length xs" "is_candidate mt (xs ! b)"
    "promote_best_candidate mt now xs
       = xs[b := (xs ! b)\<lparr>status := ''active'', promoted_at := Some now\<rparr>]" by blast
  let ?z = "(xs ! b)\<lparr>status := ''active'', promoted_at := Some now\<rparr>"
  from b(2) have na: "\<not> is_active T (xs ! b)" by (simp add: is_candidate_def is_active_def)
  from b(2) have z: "is_active T ?z \<longleftrightarrow> T = mt" by (auto simp: is_candidate_def is_active_def)
  from active_count_update[OF b(1), of T ?z] na z b(3) show ?thesis by simp
next
  case False
  then have "\<forall>j < length xs. \<not> is_candidate mt (xs ! j)" by blast
  from promote_none[OF this] show ?thesis by simp
qed

lemma add_model_keeps:
  assumes ht: "has_types (models (registry s))"
    and one: "\<forall>T. active_count T (models (registry s)) \<le> 1"
  shows "has_types (models (registry (snd (add_model md u t1 t2 s))))
       \<and> (\<forall>T. active_count T (models (registry (snd (add_model md u t1 t2 s)))) \<le> 1)"
proof (cases "all_required md")
  case False
  from add_model_fails[OF False, of u t1 t2 s] have "snd (add_model md u t1 t2 s) = s" by auto
  with ht one show ?thesis by simp
next
  case True
  let ?ms = "models (registry s)"
  let ?e = "model_entry md u t1"
  obtain mt where mt: "model_type ?e = Some mt" by (simp add: model_entry_def)
  from True have n: "find (\<lambda>f. \<not> has_field md f) required_fields = None"
    by (simp add: find_missing_None)
  have hte: "has_types (?ms @ [?e])" using ht mt by (simp add: has_types_def)
  show ?thesis
  proof (cases "status ?e = ''active''")
    case True
    have r: "models (registry (snd (add_model md u t1 t2 s)))
               = deactivate_other_models mt (?ms @ [?e])"
      unfolding add_model_def n using True mt by (simp add: Let_def)
    have "active_count T (deactivate_other_models mt (?ms @ [?e])) \<le> 1" for T
    proof (cases "T = mt")
      case True
      then show ?thesis by (simp add: active_count_deactivate_same)
    next
      case False
      with mt have "\<not> is_active T ?e" by (simp add: is_active_def)
      then have "active_count T (?ms @ [?e]) = active_count T ?ms" by (simp add: active_count_def)
      with False one show ?thesis by (simp add: active_count_deactivate_other)
    qed
    with r hte show ?thesis by (simp add: has_types_deactivate)
  next
    case False
    have r: "models (registry (snd (add_model md u t1 t2 s))) = ?ms @ [?e]"
      unfolding add_model_def n using False by (simp add: Let_def)
    from False have "active_count T (?ms @ [?e]) = active_count T ?ms" for T
      by (simp add: active_count_def is_active_def)
    with r hte one show ?thesis by simp
  qed
qed

lemma update_model_status_keeps:
  assumes ht: "has_types (models (registry s))"
    and one: "\<forall>T. active_count T (models (registry s)) \<le> 1"
  shows "has_types (models (registry (snd (update_model_status mid ns t1 t2 t3 s))))
       \<and> (\<forall>T. active_count T (models (registry (snd (update_model_status mid ns t1 t2 t3 s)))) \<le> 1)"
proof (cases "ns \<in> set valid_statuses")
  case False
  then have "snd (update_model_status mid ns t1 t2 t3 s) = s"
    by (simp add: update_model_status_def)
  with ht one show ?thesis by simp
next
  case valid: True
  let ?ms = "models (registry s)"
  show ?thesis
  proof (cases "get_model_index mid ?ms")
    case None
    with valid have "snd (update_model_status mid ns t1 t2 t3 s) = s"
      by (simp add: update_model_status_def)
    with ht one show ?thesis by simp
  next
    case (Some i)
    from get_model_index_first[OF Some] have il: "i < length ?ms" by simp
    from ht il have "model_type (?ms ! i) \<noteq> None"
      by (simp add: has_types_def list_all_length)
    then obtain mt where mt: "model_type (?ms ! i) = Some mt" by blast
    define y where "y = (?ms ! i)\<lparr>status := ns, updated_at := Some t1\<rparr>"
    define ms1 where "ms1 = ?ms[i := y]"
    have yt: "model_type y = Some mt" and ys: "status y = ns" using mt by (simp_all add: y_def)
    have ht1: "has_types ms1" unfolding ms1_def using ht yt by (intro has_types_update) simp_all
    have cu: "active_count T ms1 + (if is_active T (?ms ! i) then 1 else 0)
                = active_count T ?ms + (if is_active T y then 1 else 0)" for T
      unfolding ms1_def using il by (rule active_count_update)
    show ?thesis
    proof (cases "ns = ''active''")
      case True
      have r: "models (registry (snd (update_model_status mid ns t1 t2 t3 s)))
                 = deactivate_other_models mt ms1"
        using valid Some mt True by (simp add: update_model_status_def Let_def ms1_def y_def)
      have "active_count T (deactivate_other_models mt ms1) \<le> 1" for T
      proof (cases "T = mt")
        case True
        then show ?thesis by (simp add: active_count_deactivate_same)
      next
        case False
        with mt yt have "\<not> is_active T (?ms ! i)" "\<not> is_active T y" by (simp_all add: is_active_def)
        with cu[of T] have "active_count T ms1 = active_count T ?ms" by simp
        with False one show ?thesis by (simp add: active_count_deactivate_other)
      qed
      with r ht1 show ?thesis by (simp add: has_types_deactivate)
    next
      case na: False
      with ys have ny: "\<not> is_active T y" for T by (simp add: is_active_def)
      show ?thesis
      proof (cases "status (?ms ! i) = ''active''")
        case True
        have r: "models (registry (snd (update_model_status mid ns t1 t2 t3 s)))
                   = promote_best_candidate mt t2 ms1"
          using valid Some mt True na by (simp add: update_model_status_def Let_def ms1_def y_def)
        have "active_count T (promote_best_candidate mt t2 ms1) \<le> 1" for T
        proof (cases "T = mt")
          case True
          with mt \<open>status (?ms ! i) = ''active''\<close> have "is_active T (?ms ! i)"
            by (simp add: is_active_def)
          with cu[of T] ny[of T] have "active_count T ms1 + 1 = active_count T ?ms" by simp
          moreover from one have "active_count T ?ms \<le> 1" by simp
          ultimately have "active_count T ms1 = 0" by simp
          with active_count_promote[of T mt t2 ms1] True show ?thesis by simp
        next
          case False
          from cu[of T] ny[of T] have "active_count T ms1 \<le> active_count T ?ms"
            by (simp split: if_splits)
          moreover from one have "active_count T ?ms \<le> 1" by simp
          moreover from active_count_promote[of T mt t2 ms1] False
          have "active_count T (promote_best_candidate mt t2 ms1) \<le> active_count T ms1" by simp
          ultimately show ?thesis by simp
        qed
        with r ht1 show ?thesis by (simp add: has_types_promote)
      next
        case False
        have r: "models (registry (snd (update_model_status mid ns t1 t2 t3 s))) = ms1"
          using valid Some mt False na by (simp add: update_model_status_def Let_def ms1_def y_def)
        from False have "\<not> is_active T (?ms ! i)" for T by (simp add: is_active_def)
        with cu ny have "active_count T ms1 = active_count T ?ms" for T by simp
        with r ht1 one show ?thesis by simp
      qed
    qed
  qed
qed


text \<open>
  Claim C2, for the calls that keep the invariant: if every entry of the ledger carries
  a \<open>model_type\<close> and no type has more than one active entry, then the same holds of the
  ledger left by \<open>add_model\<close>, by \<open>update_model_status\<close> and by \<open>cleanup_old_models\<close>,
  whatever their arguments and whether they return or raise. \<open>import_registry\<close> is not
  among them: it stores the imported entries as they are.
\<close>

theorem single_active_preserved:
  assumes "has_types (models (registry s))"
    and "\<forall>T. active_count T (models (registry s)) \<le> 1"
  shows "(\<forall>T. active_count T (models (registry (snd (add_model md u t1 t2 s)))) \<le> 1)
       \<and> has_types (models (registry (snd (add_model md u t1 t2 s))))
       \<and> (\<forall>T. active_count T
                (models (registry (snd (update_model_status mid ns t3 t4 t5 s)))) \<le> 1)
       \<and> has_types (models (registry (snd (update_model_status mid ns t3 t4 t5 s))))
       \<and> (\<forall>T. active_count T (models (registry (snd (cleanup_old_models k t6 s)))) \<le> 1)
       \<and> has_types (models (registry (snd (cleanup_old_models k t6 s))))"
proof -
  have c: "active_count T (models (registry (snd (cleanup_old_models k t6 s)))) \<le> 1" for T
  proof -
    from cleanup_shrinks[of T k t6 s]
    have "active_count T (models (registry (snd (cleanup_old_models k t6 s))))
            \<le> active_count T (models (registry s))" by simp
    moreover from assms(2) have "active_count T (models (registry s)) \<le> 1" by simp
    ultimately show ?thesis by simp
  qed
  from cleanup_shrinks[of undefined k t6 s] assms(1)
  have h: "has_types (models (registry (snd (cleanup_old_models k t6 s))))"
    by (auto simp: has_types_def list_all_iff)
  from add_model_keeps[OF assms, of md u t1 t2]
    update_model_status_keeps[OF assms, of mid ns t3 t4 t5] c h
  show ?thesis by simp
qed

text \<open>The theorem at work on a ledger with one active and two archived entries.\<close>

theorem single_active_preserved_witness:
  "has_types (models (registry (loaded_store archive_ledger)))
   \<and> active_count ''full_time'' (models (registry (loaded_store archive_ledger))) = 1
   \<and> active_count ''full_time'' (models (registry (snd
        (add_model demo_model2 ''uuid-0'' ''2024-02-01T00:00:00'' ''2024-02-01T00:00:00''
           (loaded_store archive_ledger))))) \<le> 1
   \<and> active_count ''full_time'' (models (registry (snd
        (update_model_status ''old-1'' ''candidate''
           ''2024-02-01T00:00:00'' ''2024-02-01T00:00:00'' ''2024-02-01T00:00:00''
           (loaded_store archive_ledger))))) \<le> 1
   \<and> active_count ''full_time'' (models (registry (snd
        (cleanup_old_models 1 ''2024-02-01T00:00:00'' (loaded_store archive_ledger))))) \<le> 1"
proof -
  have m: "models (registry (loaded_store archive_ledger)) = archive_ledger"
    by (simp add: loaded_store_def Let_def)
  have h1: "has_types (models (registry (loaded_store archive_ledger)))"
    unfolding m by (simp add: has_types_def archive_ledger_def sample_entry_def)
  have h2: "\<forall>T. active_count T (models (registry (loaded_store archive_ledger))) \<le> 1"
    unfolding m by (simp add: active_count_def archive_ledger_def sample_entry_def is_active_def)
  have e: "active_count ''full_time'' (models (registry (loaded_store archive_ledger))) = 1"
    unfolding m by (simp add: active_count_def archive_ledger_def sample_entry_def is_active_def)
  from single_active_preserved[OF h1 h2] h1 e show ?thesis by blast
qed

text \<open>Claim C2 as the spec words it includes \<open>importFrom\<close>. Importing a file with two
  active entries of one type into the fresh store, replacing or merging, leaves two
  active entries of that type.\<close>

theorem import_two_active_counterexample:
  "active_count ''full_time'' (models (registry store0)) = 0
   \<and> active_count ''full_time'' (models (registry_file (snd
        (import_registry (Some two_active) False
           ''2024-02-01T00:00:00'' ''2024-02-01T00:00:00'' ''2024-02-01T00:00:00'' store0)))) = 2
   \<and> active_count ''full_time'' (models (registry_file (snd
        (import_registry (Some two_active) True
           ''2024-02-01T00:00:00'' ''2024-02-01T00:00:00'' ''2024-02-01T00:00:00'' store0)))) = 2"
  by (simp add: eval3)

subsection \<open>Champion and challengers\<close>

lemmas load_defs = load_models_def load_calls_def challenger_weight_def challengers_def
  champion_def candidate_models_def active_models_def type_filter_def load_single_model_def
  new_predictor_def get_models_by_status_def py_sorted_rev_def py_max_def accuracy_def
  scenario_ledger_def sample_entry_def

lemma py_max_greatest:
  assumes "py_max key xs = Some c"
  shows "c \<in> set xs \<and> (\<forall>a \<in> set xs. key a \<le> key c)"
proof -
  from py_max_first[OF assms] obtain ys zs where "xs = ys @ c # zs"
    "\<forall>y \<in> set ys. key y < key c" "\<forall>z \<in> set zs. key z \<le> key c" by blast
  then show ?thesis by (auto simp: less_imp_le)
qed

lemma py_sorted_rev_mset: "mset (py_sorted_rev key xs) = mset xs"
  by (simp add: py_sorted_rev_def)

lemma py_sorted_rev_sorted: "sorted_wrt (\<lambda>a b. key b \<le> key a) (py_sorted_rev key xs)"
proof -
  have "sorted (map key (sort_key key (rev xs)))" by (rule sorted_sort_key)
  then have "sorted_wrt (\<lambda>a b. key a \<le> key b) (sort_key key (rev xs))"
    by (simp add: sorted_map)
  then show ?thesis by (simp add: py_sorted_rev_def sorted_wrt_rev)
qed

lemma py_sorted_rev_length: "length (py_sorted_rev key xs) = length xs"
  by (simp add: py_sorted_rev_def)

lemma load_single_model_weights:
  "model_weights (load_single_model artifacts e w p) k
     = (if k = id_key e \<and> artifacts (file_path e) \<noteq> None then Some w else model_weights p k)"
  by (auto simp: load_single_model_def split: option.splits)

lemma fold_load_other:
  "k \<notin> set (map (\<lambda>(e, w). id_key e) calls) \<Longrightarrow>
     model_weights (fold (\<lambda>(e, w). load_single_model artifacts e w) calls p) k = model_weights p k"
  by (induction calls arbitrary: p) (auto simp: load_single_model_weights)

lemma fold_load_weight:
  "distinct (map (\<lambda>(e, w). id_key e) calls) \<Longrightarrow> (e, w) \<in> set calls \<Longrightarrow>
     artifacts (file_path e) = Some h \<Longrightarrow>
     model_weights (fold (\<lambda>(e, w). load_single_model artifacts e w) calls p) (id_key e) = Some w"
proof (induction calls arbitrary: p)
  case Nil
  then show ?case by simp
next
  case (Cons c calls)
  obtain e' w' where c: "c = (e', w')" by (cases c)
  show ?case
  proof (cases "(e, w) = (e', w')")
    case True
    with Cons.prems(1) c have "id_key e \<notin> set (map (\<lambda>(e, w). id_key e) calls)" by auto
    then have "model_weights (fold (\<lambda>(e, w). load_single_model artifacts e w) calls
                   (load_single_model artifacts e w p)) (id_key e)
                 = model_weights (load_single_model artifacts e w p) (id_key e)"
      by (rule fold_load_other)
    also have "\<dots> = Some w" using Cons.prems(3) by (simp add: load_single_model_weights)
    finally show ?thesis using True c by simp
  next
    case False
    with Cons.prems(2) c have "(e, w) \<in> set calls" by auto
    moreover from Cons.prems(1) have "distinct (map (\<lambda>(e, w). id_key e) calls)" by simp
    ultimately show ?thesis using Cons.IH Cons.prems(3) c by simp
  qed
qed

lemma dict_set_fresh: "k \<notin> fst ` set d \<Longrightarrow> dict_set k v d = d @ [(k, v)]"
  by (induction d) auto

lemma load_single_model_members:
  "id_key e \<notin> fst ` set (models_p p) \<Longrightarrow>
     models_p (load_single_model artifacts e w p)
       = models_p p @ (case artifacts (file_path e) of None \<Rightarrow> [] | Some h \<Rightarrow> [(id_key e, h, e)])"
  by (simp add: load_single_model_def dict_set_fresh split: option.splits)

lemma fold_load_members:
  "distinct (map (\<lambda>(e, w). id_key e) calls) \<Longrightarrow>
   \<forall>(e, w) \<in> set calls. id_key e \<notin> fst ` set (models_p p) \<Longrightarrow>
     models_p (fold (\<lambda>(e, w). load_single_model artifacts e w) calls p)
       = models_p p
         @ concat (map (\<lambda>(e, w). case artifacts (file_path e) of
                                    None \<Rightarrow> [] | Some h \<Rightarrow> [(id_key e, h, e)]) calls)"
proof (induction calls arbitrary: p)
  case Nil
  then show ?case by simp
next
  case (Cons c calls)
  obtain e w where c: "c = (e, w)" by (cases c)
  let ?p = "load_single_model artifacts e w p"
  from Cons.prems(2) c have fresh: "id_key e \<notin> fst ` set (models_p p)" by simp
  have m: "models_p ?p
       = models_p p @ (case artifacts (file_path e) of None \<Rightarrow> [] | Some h \<Rightarrow> [(id_key e, h, e)])"
    using fresh by (rule load_single_model_members)
  from Cons.prems(1) c have d: "distinct (map (\<lambda>(e, w). id_key e) calls)"
    and ni: "id_key e \<notin> set (map (\<lambda>(e, w). id_key e) calls)" by simp_all
  have ne: "\<forall>(e', w') \<in> set calls. id_key e' \<noteq> id_key e"
  proof (clarify)
    fix e' w' assume "(e', w') \<in> set calls" "id_key e' = id_key e"
    then have "id_key e \<in> set (map (\<lambda>(e, w). id_key e) calls)" by force
    with ni show False by simp
  qed
  have "\<forall>(e', w') \<in> set calls. id_key e' \<notin> fst ` set (models_p ?p)"
    using Cons.prems(2) ne m by (auto split: option.splits)
  from Cons.IH[OF d this] m c show ?case by simp
qed

lemma load_calls_entries:
  "map fst (load_calls mt ms)
     = (case champion mt ms of None \<Rightarrow> [] | Some c \<Rightarrow> [c]) @ challengers mt ms"
  by (simp add: load_calls_def comp_def split: option.splits)

lemma load_calls_ids:
  "map (\<lambda>(e, w). id_key e) (load_calls mt ms)
     = map id_key ((case champion mt ms of None \<Rightarrow> [] | Some c \<Rightarrow> [c]) @ challengers mt ms)"
  by (simp add: load_calls_def comp_def split: option.splits)

lemma load_models_members:
  assumes "distinct (map id_key ((case champion mt ms of None \<Rightarrow> [] | Some c \<Rightarrow> [c])
                                   @ challengers mt ms))"
  shows "models_p (load_models artifacts mt ms new_predictor)
           = concat (map (\<lambda>e. case artifacts (file_path e) of
                                  None \<Rightarrow> [] | Some h \<Rightarrow> [(id_key e, h, e)])
                       ((case champion mt ms of None \<Rightarrow> [] | Some c \<Rightarrow> [c])
                        @ challengers mt ms))"
proof -
  from assms have d: "distinct (map (\<lambda>(e, w). id_key e) (load_calls mt ms))"
    by (simp add: load_calls_ids)
  have f: "\<forall>(e, w) \<in> set (load_calls mt ms).
             id_key e \<notin> fst ` set (models_p (new_predictor :: 'a predictor))"
    by (simp add: new_predictor_def split: prod.splits)
  have "concat (map (\<lambda>(e, w). case artifacts (file_path e) of
                                    None \<Rightarrow> [] | Some h \<Rightarrow> [(id_key e, h, e)]) (load_calls mt ms))
        = concat (map (\<lambda>e. case artifacts (file_path e) of
                                  None \<Rightarrow> [] | Some h \<Rightarrow> [(id_key e, h, e)])
                   (map fst (load_calls mt ms)))"
    by (simp add: comp_def case_prod_unfold)
  with fold_load_members[OF d f, of artifacts] show ?thesis
    by (simp add: load_models_def load_calls_entries new_predictor_def)
qed

lemma load_models_weights:
  assumes "distinct (map id_key ((case champion mt ms of None \<Rightarrow> [] | Some c \<Rightarrow> [c])
                                   @ challengers mt ms))"
  shows "(\<forall>c h. champion mt ms = Some c \<and> artifacts (file_path c) = Some h \<longrightarrow>
            model_weights (load_models artifacts mt ms p) (id_key c) = Some 0.7)
       \<and> (\<forall>x h. x \<in> set (challengers mt ms) \<and> artifacts (file_path x) = Some h \<longrightarrow>
            model_weights (load_models artifacts mt ms p) (id_key x)
              = Some (0.3 / real (length (challengers mt ms))))"
proof -
  from assms have d: "distinct (map (\<lambda>(e, w). id_key e) (load_calls mt ms))"
    by (simp add: load_calls_ids)
  have a: "model_weights (load_models artifacts mt ms p) (id_key c) = Some 0.7"
    if "champion mt ms = Some c" "artifacts (file_path c) = Some h" for c h
  proof -
    from that(1) have "(c, 0.7) \<in> set (load_calls mt ms)" by (simp add: load_calls_def)
    from fold_load_weight[of "load_calls mt ms" c "0.7" artifacts h p, OF d this that(2)]
    show ?thesis by (simp add: load_models_def)
  qed
  have b: "model_weights (load_models artifacts mt ms p) (id_key x)
              = Some (0.3 / real (length (challengers mt ms)))"
    if "x \<in> set (challengers mt ms)" "artifacts (file_path x) = Some h" for x h
  proof -
    from that(1) have ne: "challengers mt ms \<noteq> []" by auto
    from that(1) have "(x, challenger_weight mt ms) \<in> set (load_calls mt ms)"
      by (simp add: load_calls_def)
    from fold_load_weight[of "load_calls mt ms" x "challenger_weight mt ms" artifacts h p,
        OF d this that(2)] ne
    show ?thesis by (simp add: load_models_def challenger_weight_def)
  qed
  from a b show ?thesis by blast
qed

lemma load_models_no_weight:
  assumes "k \<notin> id_key ` set ((case champion mt ms of None \<Rightarrow> [] | Some c \<Rightarrow> [c])
                                  @ challengers mt ms)"
  shows "model_weights (load_models artifacts mt ms p) k = model_weights p k"
proof -
  have "set (map (\<lambda>(e, w). id_key e) (load_calls mt ms))
          = id_key ` set ((case champion mt ms of None \<Rightarrow> [] | Some c \<Rightarrow> [c])
                          @ challengers mt ms)"
    unfolding load_calls_ids by (rule set_map)
  with assms have "k \<notin> set (map (\<lambda>(e, w). id_key e) (load_calls mt ms))" by blast
  from fold_load_other[OF this] show ?thesis by (simp add: load_models_def)
qed


lemma active_models_filter:
  "active_models mt ms
     = filter (\<lambda>a. status a = ''active'' \<and> (mt = None \<or> mt = Some [] \<or> model_type a = mt)) ms"
proof (cases mt)
  case None
  then show ?thesis by (simp add: active_models_def type_filter_def get_models_by_status_def)
next
  case (Some t)
  then show ?thesis
    by (cases "t = []")
       (auto simp: active_models_def type_filter_def get_models_by_status_def intro: filter_cong)
qed

lemma candidate_models_filter:
  "candidate_models mt ms
     = filter (\<lambda>a. status a = ''candidate'' \<and> (mt = None \<or> mt = Some [] \<or> model_type a = mt)) ms"
proof (cases mt)
  case None
  then show ?thesis by (simp add: candidate_models_def type_filter_def get_models_by_status_def)
next
  case (Some t)
  then show ?thesis
    by (cases "t = []")
       (auto simp: candidate_models_def type_filter_def get_models_by_status_def intro: filter_cong)
qed

text \<open>
  Claim C6, as the code has it. The entries considered are those of the requested
  type, or of every type when none is requested. With no active entry among them there
  is no champion; otherwise the champion is an active entry whose \<open>created_at\<close> no
  other active entry exceeds. The challengers are the first two entries (fewer if
  there are fewer) of the candidates ranked by descending accuracy. When the selected
  entries have distinct ids, the members of the loaded ensemble are the selected
  entries whose artifacts load, champion first and then the challengers in rank order;
  such a champion has weight 0.7, such a challenger has weight 0.3 divided by the number
  of selected challengers, and no other id has a weight. On the scenario ledger the
  members are the active entry with 0.7, then the 0.89 candidate and the 0.82 candidate
  with 0.15 each.
\<close>

theorem ensemble_selection:
  "active_models mt ms
     = filter (\<lambda>a. status a = ''active'' \<and> (mt = None \<or> mt = Some [] \<or> model_type a = mt)) ms
   \<and> candidate_models mt ms
     = filter (\<lambda>a. status a = ''candidate'' \<and> (mt = None \<or> mt = Some [] \<or> model_type a = mt)) ms
   \<and> (active_models mt ms = [] \<longrightarrow> champion mt ms = None)
   \<and> (active_models mt ms \<noteq> [] \<longrightarrow>
        (\<exists>c. champion mt ms = Some c \<and> c \<in> set (active_models mt ms)
           \<and> (\<forall>a \<in> set (active_models mt ms). created_at a \<le> created_at c)))
   \<and> (\<exists>ranked. mset ranked = mset (candidate_models mt ms)
          \<and> sorted_wrt (\<lambda>a b. accuracy b \<le> accuracy a) ranked
          \<and> challengers mt ms = take 2 ranked)
   \<and> length (challengers mt ms) = min 2 (length (candidate_models mt ms))
   \<and> (distinct (map id_key ((case champion mt ms of None \<Rightarrow> [] | Some c \<Rightarrow> [c])
                               @ challengers mt ms)) \<longrightarrow>
        models_p (load_models artifacts mt ms new_predictor)
          = concat (map (\<lambda>e. case artifacts (file_path e) of
                                 None \<Rightarrow> [] | Some h \<Rightarrow> [(id_key e, h, e)])
                      ((case champion mt ms of None \<Rightarrow> [] | Some c \<Rightarrow> [c])
                       @ challengers mt ms))
        \<and> (\<forall>c h. champion mt ms = Some c \<and> artifacts (file_path c) = Some h \<longrightarrow>
              model_weights (load_models artifacts mt ms new_predictor) (id_key c) = Some 0.7)
        \<and> (\<forall>x h. x \<in> set (challengers mt ms) \<and> artifacts (file_path x) = Some h \<longrightarrow>
              model_weights (load_models artifacts mt ms new_predictor) (id_key x)
                = Some (0.3 / real (length (challengers mt ms))))
        \<and> (\<forall>k. k \<notin> id_key ` set ((case champion mt ms of None \<Rightarrow> [] | Some c \<Rightarrow> [c])
                                      @ challengers mt ms) \<longrightarrow>
              model_weights (load_models artifacts mt ms new_predictor) k = None))
   \<and> map (\<lambda>(k, h, e). (k, accuracy e, model_weights scenario_predictor k))
        (models_p scenario_predictor)
        = [(''champion'', 0.85, Some 0.7), (''challenger-1'', 0.89, Some 0.15),
           (''challenger-2'', 0.82, Some 0.15)]"
proof -
  let ?sel = "(case champion mt ms of None \<Rightarrow> [] | Some c \<Rightarrow> [c]) @ challengers mt ms"
  let ?p = "load_models artifacts mt ms new_predictor"
  have a: "active_models mt ms = [] \<longrightarrow> champion mt ms = None"
    by (simp add: champion_def)
  have b: "active_models mt ms \<noteq> [] \<longrightarrow>
        (\<exists>c. champion mt ms = Some c \<and> c \<in> set (active_models mt ms)
           \<and> (\<forall>a \<in> set (active_models mt ms). created_at a \<le> created_at c))"
  proof
    assume "active_models mt ms \<noteq> []"
    then have "py_max created_at (active_models mt ms) \<noteq> None" by simp
    then obtain c where c: "py_max created_at (active_models mt ms) = Some c" by blast
    from py_max_greatest[OF c] c show "\<exists>c. champion mt ms = Some c \<and> c \<in> set (active_models mt ms)
           \<and> (\<forall>a \<in> set (active_models mt ms). created_at a \<le> created_at c)"
      by (simp add: champion_def)
  qed
  have d: "\<exists>ranked. mset ranked = mset (candidate_models mt ms)
          \<and> sorted_wrt (\<lambda>a b. accuracy b \<le> accuracy a) ranked
          \<and> challengers mt ms = take 2 ranked"
    by (rule exI[of _ "py_sorted_rev accuracy (candidate_models mt ms)"])
       (simp add: py_sorted_rev_mset py_sorted_rev_sorted challengers_def)
  have e: "length (challengers mt ms) = min 2 (length (candidate_models mt ms))"
    by (simp add: challengers_def py_sorted_rev_length min.commute)
  have f: "distinct (map id_key ?sel) \<longrightarrow>
        models_p ?p = concat (map (\<lambda>e. case artifacts (file_path e) of
                                 None \<Rightarrow> [] | Some h \<Rightarrow> [(id_key e, h, e)]) ?sel)
        \<and> (\<forall>c h. champion mt ms = Some c \<and> artifacts (file_path c) = Some h \<longrightarrow>
              model_weights ?p (id_key c) = Some 0.7)
        \<and> (\<forall>x h. x \<in> set (challengers mt ms) \<and> artifacts (file_path x) = Some h \<longrightarrow>
              model_weights ?p (id_key x) = Some (0.3 / real (length (challengers mt ms))))
        \<and> (\<forall>k. k \<notin> id_key ` set ?sel \<longrightarrow> model_weights ?p k = None)"
  proof
    assume dis: "distinct (map id_key ?sel)"
    have n: "\<forall>k. k \<notin> id_key ` set ?sel \<longrightarrow> model_weights ?p k = None"
    proof (intro allI impI)
      fix k assume "k \<notin> id_key ` set ?sel"
      from load_models_no_weight[OF this, of artifacts new_predictor]
      show "model_weights ?p k = None" by (simp add: new_predictor_def)
    qed
    from load_models_members[OF dis, of artifacts]
      load_models_weights[OF dis, of artifacts new_predictor] n
    show "models_p ?p = concat (map (\<lambda>e. case artifacts (file_path e) of
                                 None \<Rightarrow> [] | Some h \<Rightarrow> [(id_key e, h, e)]) ?sel)
        \<and> (\<forall>c h. champion mt ms = Some c \<and> artifacts (file_path c) = Some h \<longrightarrow>
              model_weights ?p (id_key c) = Some 0.7)
        \<and> (\<forall>x h. x \<in> set (challengers mt ms) \<and> artifacts (file_path x) = Some h \<longrightarrow>
              model_weights ?p (id_key x) = Some (0.3 / real (length (challengers mt ms))))
        \<and> (\<forall>k. k \<notin> id_key ` set ?sel \<longrightarrow> model_weights ?p k = None)"
      by blast
  qed
  have h: "map (\<lambda>(k, h, e). (k, accuracy e, model_weights scenario_predictor k))
        (models_p scenario_predictor)
        = [(''champion'', 0.85, Some 0.7), (''challenger-1'', 0.89, Some 0.15),
           (''challenger-2'', 0.82, Some 0.15)]"
    by (simp add: scenario_predictor_def load_defs sample_artifacts_def)
  from active_models_filter[of mt ms] candidate_models_filter[of mt ms] a b d e f h
  show ?thesis by blast
qed

text \<open>The theorem at work on the scenario ledger, with all three artifacts present.\<close>

theorem ensemble_selection_witness:
  "active_models (Some ''full_time'') scenario_ledger \<noteq> []
   \<and> map_option id_key (champion (Some ''full_time'') scenario_ledger) = Some ''champion''
   \<and> map id_key (challengers (Some ''full_time'') scenario_ledger)
       = [''challenger-1'', ''challenger-2'']
   \<and> model_weights scenario_predictor ''champion'' = Some 0.7
   \<and> model_weights scenario_predictor ''challenger-1'' = Some 0.15
   \<and> model_weights scenario_predictor ''unselected'' = None"
proof -
  let ?mt = "Some ''full_time''"
  let ?c = "sample_entry ''champion'' 0.85 ''2024-01-01T00:00:00'' ''active''"
  let ?x = "sample_entry ''challenger-1'' 0.89 ''2024-01-03T00:00:00'' ''candidate''"
  have am: "active_models ?mt scenario_ledger \<noteq> []" by (simp add: load_defs)
  have ch: "champion ?mt scenario_ledger = Some ?c" by (simp add: load_defs)
  have cs: "challengers ?mt scenario_ledger
              = [?x, sample_entry ''challenger-2'' 0.82 ''2024-01-02T00:00:00'' ''candidate'']"
    by (simp add: load_defs)
  have dis: "distinct (map id_key ((case champion ?mt scenario_ledger of
                                      None \<Rightarrow> [] | Some c \<Rightarrow> [c])
                                   @ challengers ?mt scenario_ledger))"
    unfolding ch cs by (simp add: sample_entry_def)
  have ac: "sample_artifacts (file_path ?c) = Some (sample_model 1 [0.2, 0.8])"
    and ax: "sample_artifacts (file_path ?x) = Some (sample_model 1 [0.3, 0.7])"
    by (simp_all add: sample_artifacts_def sample_entry_def)
  have xin: "?x \<in> set (challengers ?mt scenario_ledger)" unfolding cs by simp
  have un: "''unselected'' \<notin> id_key ` set ((case champion ?mt scenario_ledger of
                                      None \<Rightarrow> [] | Some c \<Rightarrow> [c])
                                   @ challengers ?mt scenario_ledger)"
    unfolding ch cs by (simp add: sample_entry_def)
  note sel = ensemble_selection[of ?mt scenario_ledger sample_artifacts]
  from sel dis ch ac have w1: "model_weights scenario_predictor (id_key ?c) = Some 0.7"
    unfolding scenario_predictor_def by blast
  from sel dis xin ax
  have "model_weights scenario_predictor (id_key ?x)
          = Some (0.3 / real (length (challengers ?mt scenario_ledger)))"
    unfolding scenario_predictor_def by blast
  then have w2: "model_weights scenario_predictor ''challenger-1'' = Some 0.15"
    unfolding cs by (simp add: sample_entry_def)
  from sel dis un have w3: "model_weights scenario_predictor ''unselected'' = None"
    unfolding scenario_predictor_def by blast
  from w1 have w1': "model_weights scenario_predictor ''champion'' = Some 0.7"
    by (simp add: sample_entry_def)
  from am ch cs w1' w2 w3 show ?thesis by (simp add: sample_entry_def)
qed

text \<open>Claim C6 as the spec words it holds of every registry state. The weights are
  kept by id: when the champion and the one challenger share an id, the challenger
  replaces the champion in the ensemble and the id ends with weight 0.3, not 0.7.\<close>

theorem duplicate_id_weight_counterexample:
  "map (\<lambda>e. (id_key e, status e)) dup_ledger = [(''model'', ''active''), (''model'', ''candidate'')]
   \<and> map_option status (champion (Some ''full_time'') dup_ledger) = Some ''active''
   \<and> map status (challengers (Some ''full_time'') dup_ledger) = [''candidate'']
   \<and> model_weights (load_models any_artifact (Some ''full_time'') dup_ledger new_predictor)
        ''model'' = Some 0.3
   \<and> map (\<lambda>(k, h, e). (k, status e))
        (models_p (load_models any_artifact (Some ''full_time'') dup_ledger new_predictor))
       = [(''model'', ''candidate'')]"
  by (simp add: load_defs dup_ledger_def any_artifact_def)

subsection \<open>Batch prediction\<close>

lemmas predict_defs = predict_single_def ensemble_predict_def blend_defs message_def
   sample_model_def sample_clock_def get_probability_breakdown_def

text \<open>
  Claim C5: \<open>predict_batch\<close> returns a list as long as its input (the empty list
  included) and is a total function, no exception leaving it; position \<open>i\<close> holds the
  error record with index \<open>i\<close>, the exception's message and a clock reading when
  \<open>predict_single\<close> fails on item \<open>i\<close>, and otherwise the prediction for item \<open>i\<close>
  with \<open>match_index\<close> set to \<open>i\<close>.
\<close>

theorem predict_batch_slots:
  "length (predict_batch str_of p preprocess now matches_data) = length matches_data
   \<and> (\<forall>i < length matches_data.
         predict_batch str_of p preprocess now matches_data ! i
           = (case predict_single p preprocess (now i) (matches_data ! i) of
                Inl e \<Rightarrow> ErrorRecord i (str_of e) (now i)
              | Inr r \<Rightarrow> Prediction (r\<lparr>match_index := Some i\<rparr>)))"
  by (simp add: predict_batch_def nth_enumerate_eq split: sum.splits)

text \<open>The theorem at work on the spec's scenario: a valid item and one on which every
  member fails.\<close>

theorem predict_batch_slots_witness:
  "length (predict_batch message scenario_predictor Inr sample_clock [1, -1]) = 2
   \<and> (case predict_batch message scenario_predictor Inr sample_clock [1, -1] ! 0 of
         Prediction r \<Rightarrow> Some (prediction r, confidence r, match_index r, timestamp r)
       | ErrorRecord i e t \<Rightarrow> None)
       = Some (1, 0.725, Some 0, ''2024-03-01T00:00:00'')
   \<and> predict_batch message scenario_predictor Inr sample_clock [1, -1] ! 1
       = ErrorRecord 1 ''All model predictions failed'' ''2024-03-01T00:00:01''"
proof -
  let ?b = "predict_batch message scenario_predictor Inr sample_clock [1, -1]"
  from predict_batch_slots[of message scenario_predictor Inr sample_clock "[1, -1]"]
  have len: "length ?b = 2"
    and slot: "\<forall>i < length [1, -1 :: int].
         ?b ! i = (case predict_single scenario_predictor Inr (sample_clock i) ([1, -1] ! i) of
                Inl e \<Rightarrow> ErrorRecord i (message e) (sample_clock i)
              | Inr r \<Rightarrow> Prediction (r\<lparr>match_index := Some i\<rparr>))"
    by simp_all
  from slot have s0: "?b ! 0 = (case predict_single scenario_predictor Inr (sample_clock 0) 1 of
                Inl e \<Rightarrow> ErrorRecord 0 (message e) (sample_clock 0)
              | Inr r \<Rightarrow> Prediction (r\<lparr>match_index := Some 0\<rparr>))"
    by simp
  have "1 < length [1, -1 :: int]" by simp
  from slot[rule_format, OF this]
  have s1: "?b ! 1 = (case predict_single scenario_predictor Inr (sample_clock 1) (-1) of
                Inl e \<Rightarrow> ErrorRecord 1 (message e) (sample_clock 1)
              | Inr r \<Rightarrow> Prediction (r\<lparr>match_index := Some 1\<rparr>))"
    by simp
  have e1: "predict_single scenario_predictor Inr (sample_clock 1) (-1)
              = Inl (ValueError ''All model predictions failed'')"
    by (simp add: scenario_predictor_def load_defs sample_artifacts_def predict_defs)
  have e0: "map_sum id (\<lambda>r. (prediction r, confidence r, timestamp r))
              (predict_single scenario_predictor Inr (sample_clock 0) 1)
              = Inr (1, 0.725, ''2024-03-01T00:00:00'')"
    by (simp add: scenario_predictor_def load_defs sample_artifacts_def predict_defs)
  then obtain r where r: "predict_single scenario_predictor Inr (sample_clock 0) 1 = Inr r"
    "prediction r = 1" "confidence r = 0.725" "timestamp r = ''2024-03-01T00:00:00''"
    by (cases "predict_single scenario_predictor Inr (sample_clock 0) 1") auto
  from s0 r have "(case ?b ! 0 of
         Prediction r \<Rightarrow> Some (prediction r, confidence r, match_index r, timestamp r)
       | ErrorRecord i e t \<Rightarrow> None)
       = Some (1, 0.725, Some 0, ''2024-03-01T00:00:00'')" by simp
  moreover from s1 e1 have "?b ! 1 = ErrorRecord 1 ''All model predictions failed''
                                      ''2024-03-01T00:00:01''"
    by (simp add: message_def sample_clock_def)
  ultimately show ?thesis using len by simp
qed

end
